theory Spec2Isabelle
  imports Main "HOL-Library.Word" "HOL-Library.AList" "HOL-Library.List_Lexorder" "HOL-Library.Char_ord"
begin

unbundle bit_operations_syntax

section \<open>The block store (cache\_block.c)\<close>

text \<open>
  The block store keeps one file per cached block under \<open>blocks/XX/YY/<hash>-<index>\<close>.
  All \<open>size_t\<close> and \<open>unsigned long\<close> values are 64-bit words (LP64), so every
  addition, subtraction and multiplication of the source wraps as it does in C.

  Contexts, paths and buffers are values here. Each function of the source first
  returns its error value when one of its pointer arguments is null; that guard is part
  of the model where a pointer can be null by design (the entry array of
  \<open>cache_dir_store\<close>, the block context of the coherency check). The \<open>debug\<close> flag only
  prints and is left out, and memory allocation does not fail.
\<close>

type_synonym byte = "8 word"
type_synonym size_t = "64 word"

text \<open>
  \<open>hash_path\<close>: DJB2 over the bytes of the path, \<open>hash = ((hash << 5) + hash) + c\<close>
  starting from 5381. The source reads each byte through a plain \<open>char\<close> into an
  \<open>int\<close>; plain \<open>char\<close> is signed on the x86-64 targets of the project, so a byte
  above 127 is sign-extended before it is added. A \<open>string\<close> stands for the bytes
  of a C string before its terminator.
\<close>

definition hash_step :: "size_t \<Rightarrow> char \<Rightarrow> size_t" where
  "hash_step hash ch = (push_bit 5 hash + hash) + scast (of_char ch :: 8 word)"

definition hash_path :: "string \<Rightarrow> size_t" where
  "hash_path path = foldl hash_step 5381 path"

text \<open>
  \<open>get_block_path\<close> prints \<open>"%s/%02x/%02x/%016lx-%zu"\<close> from the blocks directory,
  \<open>h1 = (hash >> 8) & 0xFF\<close>, \<open>h2 = hash & 0xFF\<close>, the hash and the block index.
  The model keeps the four printed arguments instead of the printed text: the blocks
  directory is the same for every name of one store, the three hexadecimal fields have
  fixed widths (2, 2 and 16 digits for an 8-bit and a 64-bit value), and the decimal
  index follows the dash, so two names are equal as text exactly when they are equal
  as records.
\<close>

record block_path =
  bp_h1 :: "8 word"
  bp_h2 :: "8 word"
  bp_hash :: size_t
  bp_idx :: size_t

definition get_block_path :: "string \<Rightarrow> size_t \<Rightarrow> block_path" where
  "get_block_path path block_idx =
     (let hash = hash_path path;
          h1 = ucast (drop_bit 8 hash AND 0xFF);
          h2 = ucast (hash AND 0xFF)
      in \<lparr>bp_h1 = h1, bp_h2 = h2, bp_hash = hash, bp_idx = block_idx\<rparr>)"

text \<open>
  A block file: its bytes and its \<open>st_atime\<close>. The tree under the blocks directory is
  the list of its files in the order \<open>readdir\<close> yields them; the field \<open>blocks_dir\<close> of
  the context, a path in the source, is that tree here.
\<close>

record block_file =
  bf_data :: "byte list"
  bf_atime :: int

type_synonym blocks_tree = "(block_path \<times> block_file) list"

definition st_size_of :: "block_file \<Rightarrow> size_t" where
  "st_size_of f = of_nat (length (bf_data f))"

record cache_block_ctx =
  block_size :: size_t
  max_cache_size :: size_t
  current_cache_size :: size_t
  blocks_dir :: blocks_tree

definition DEFAULT_BLOCK_SIZE :: size_t where
  "DEFAULT_BLOCK_SIZE = 256 * 1024"

text \<open>\<open>calculate_cache_size\<close>: walk the three directory levels, add up \<open>st_size\<close>.\<close>

definition calculate_cache_size :: "blocks_tree \<Rightarrow> size_t" where
  "calculate_cache_size tree = foldl (\<lambda>total (p, f). total + st_size_of f) 0 tree"

definition cache_block_init :: "blocks_tree \<Rightarrow> size_t \<Rightarrow> size_t \<Rightarrow> cache_block_ctx" where
  "cache_block_init tree bsize max_size =
     \<lparr>block_size = (if bsize > 0 then bsize else DEFAULT_BLOCK_SIZE),
      max_cache_size = max_size,
      current_cache_size = calculate_cache_size tree,
      blocks_dir = tree\<rparr>"

subsection \<open>LRU eviction\<close>

record block_info =
  bi_path :: block_path
  bi_atime :: int
  bi_size :: size_t

definition collect_blocks :: "blocks_tree \<Rightarrow> block_info list" where
  "collect_blocks tree =
     map (\<lambda>(p, f). \<lparr>bi_path = p, bi_atime = bf_atime f, bi_size = st_size_of f\<rparr>) tree"

text \<open>
  The eviction loop
  \<open>for (i = 0; i < block_count && current_cache_size - evicted_size > target_size; i++)\<close>
  over the sorted array: \<open>unlink\<close> succeeds on a file that is there, and only then is
  the size added to \<open>evicted_size\<close>.
\<close>

fun evict_loop :: "size_t \<Rightarrow> size_t \<Rightarrow> block_info list \<Rightarrow> blocks_tree \<Rightarrow> size_t
    \<Rightarrow> blocks_tree \<times> size_t" where
  "evict_loop cur target [] tree evicted = (tree, evicted)"
| "evict_loop cur target (b # bs) tree evicted =
     (if cur - evicted > target
      then (if map_of tree (bi_path b) \<noteq> None
            then evict_loop cur target bs (AList.delete (bi_path b) tree) (evicted + bi_size b)
            else evict_loop cur target bs tree evicted)
      else (tree, evicted))"

text \<open>
  \<open>evict_lru_blocks\<close>. \<open>qsort\<close> with \<open>compare_block_atime\<close> orders the array by
  ascending atime; the order it leaves among equal atimes is not specified by C, the
  model takes the stable one.
\<close>

definition evict_lru_blocks :: "cache_block_ctx \<Rightarrow> size_t \<Rightarrow> int \<times> cache_block_ctx" where
  "evict_lru_blocks ctx target =
     (if current_cache_size ctx \<le> target then (0, ctx)
      else let blocks = collect_blocks (blocks_dir ctx) in
        if blocks = [] then (0, ctx)
        else let sorted_blocks = sort_key bi_atime blocks;
                 (tree', evicted_size) =
                    evict_loop (current_cache_size ctx) target sorted_blocks (blocks_dir ctx) 0
             in (0, ctx\<lparr>blocks_dir := tree',
                        current_cache_size := current_cache_size ctx - evicted_size\<rparr>))"

subsection \<open>Block operations\<close>

definition cache_block_exists :: "cache_block_ctx \<Rightarrow> string \<Rightarrow> size_t \<Rightarrow> bool" where
  "cache_block_exists ctx path block_idx =
     (map_of (blocks_dir ctx) (get_block_path path block_idx) \<noteq> None)"

text \<open>
  What the operating system does with the \<open>open\<close> and \<open>pread\<close> calls of
  \<open>cache_block_read\<close>, beyond what the arguments and the block files determine, is an
  input of the model: \<open>open\<close> fails on a file that is there (EMFILE, EACCES), or
  \<open>pread\<close> fails (EIO, or EFAULT for a buffer that does not hold \<open>size\<close> bytes, as
  no buffer does when \<open>size\<close> is beyond the address space), or both go through.

  \<open>pread(fd, buf, size, offset)\<close>: the \<open>size_t offset\<close> of \<open>cache_block_read\<close> is
  converted to the \<open>off_t\<close> parameter of \<open>pread\<close>, a signed 64-bit value. Linux refuses
  the call, which returns -1, when that offset is negative, when the count read as
  \<open>ssize_t\<close> is negative, and when offset plus count passes the largest \<open>off_t\<close>.
  Otherwise the call yields the bytes of the file from \<open>offset\<close>, at most \<open>size\<close> of them
  and at most \<open>MAX_RW_COUNT\<close>, the most that Linux transfers in one call.
\<close>

datatype read_io = RD_OK | RD_OPEN_FAILS | RD_PREAD_FAILS

definition MAX_RW_COUNT :: nat where
  "MAX_RW_COUNT = 0x7ffff000"

definition pread_call :: "read_io \<Rightarrow> byte list \<Rightarrow> size_t \<Rightarrow> size_t \<Rightarrow> byte list option" where
  "pread_call io data sz offset =
     (if io = RD_PREAD_FAILS then None
      else if sint offset < 0 \<or> sint sz < 0 \<or> sint (offset + sz) < 0 then None
      else Some (take (min (unat sz) MAX_RW_COUNT) (drop (unat offset) data)))"

text \<open>
  \<open>cache_block_read\<close>: \<open>open\<close> fails (the function returns -1, here \<open>None\<close>) when
  the block file is not there; the function returns what \<open>pread\<close> returns, -1
  included. The result is the bytes placed in \<open>buf\<close>; the C return value is their
  number. Whether a read that went through sets the file's access time depends on how
  the cache directory is mounted (always under \<open>strictatime\<close>, never under \<open>noatime\<close>,
  under \<open>relatime\<close> when the access time is not later than the last modification or
  status change, or is a day old); it is the input \<open>upd_atime\<close>.
\<close>

definition cache_block_read :: "cache_block_ctx \<Rightarrow> string \<Rightarrow> size_t \<Rightarrow> size_t \<Rightarrow> size_t \<Rightarrow> int
    \<Rightarrow> read_io \<Rightarrow> bool \<Rightarrow> byte list option \<times> cache_block_ctx" where
  "cache_block_read ctx path block_idx sz offset now io upd_atime =
     (let block_path = get_block_path path block_idx in
      case map_of (blocks_dir ctx) block_path of
        None \<Rightarrow> (None, ctx)
      | Some f \<Rightarrow>
          if io = RD_OPEN_FAILS then (None, ctx)
          else
            (case pread_call io (bf_data f) sz offset of
               None \<Rightarrow> (None, ctx)
             | Some bytes \<Rightarrow>
                 (Some bytes,
                  if upd_atime
                  then ctx\<lparr>blocks_dir :=
                         AList.update block_path (f\<lparr>bf_atime := now\<rparr>) (blocks_dir ctx)\<rparr>
                  else ctx)))"

text \<open>
  What the operating system does with the \<open>open\<close> and \<open>write\<close> calls of
  \<open>cache_block_write\<close> is an input of the model: \<open>open\<close> fails, or \<open>write\<close> fails
  (-1, nothing stored), or stores only the first \<open>k\<close> bytes of the buffer, or all of
  it. \<open>write_call\<close> gives the return value of \<open>write\<close> and the bytes that reached the
  file. \<open>O_CREAT | O_TRUNC\<close> creates the file with the current time as atime, or empties
  an existing file and leaves its atime.
\<close>

datatype write_io = IO_OK | IO_OPEN_FAILS | IO_WRITE_FAILS | IO_SHORT_WRITE nat

definition write_call :: "write_io \<Rightarrow> byte list \<Rightarrow> int \<times> byte list" where
  "write_call io buf =
     (case io of
        IO_WRITE_FAILS \<Rightarrow> (-1, [])
      | IO_SHORT_WRITE k \<Rightarrow> (int (min k (length buf)), take k buf)
      | _ \<Rightarrow> (int (length buf), buf))"

definition fs_create_trunc_write :: "blocks_tree \<Rightarrow> block_path \<Rightarrow> byte list \<Rightarrow> int \<Rightarrow> blocks_tree" where
  "fs_create_trunc_write tree p data now =
     AList.update p
       \<lparr>bf_data = data,
        bf_atime = (case map_of tree p of None \<Rightarrow> now | Some f \<Rightarrow> bf_atime f)\<rparr> tree"

text \<open>
  \<open>cache_block_write\<close>: the buffer holds \<open>size\<close> bytes. The counter grows by the bytes
  written; when a limit is set and the counter is above it, eviction runs with the
  target \<open>(max_cache_size * 9) / 10\<close>.
\<close>

definition cache_block_write :: "cache_block_ctx \<Rightarrow> string \<Rightarrow> size_t \<Rightarrow> byte list \<Rightarrow> int \<Rightarrow> write_io
    \<Rightarrow> int \<times> cache_block_ctx" where
  "cache_block_write ctx path block_idx buf now io =
     (let block_path = get_block_path path block_idx in
      if io = IO_OPEN_FAILS then (-1, ctx)
      else
        (let (written, stored) = write_call io buf;
             ctx1 = ctx\<lparr>blocks_dir :=
                      fs_create_trunc_write (blocks_dir ctx) block_path stored now\<rparr>
         in if written \<noteq> int (length buf) then (-1, ctx1)
            else
              (let ctx2 = ctx1\<lparr>current_cache_size := current_cache_size ctx1 + of_int written\<rparr>
               in if max_cache_size ctx2 > 0 \<and> current_cache_size ctx2 > max_cache_size ctx2
                  then (let target = (max_cache_size ctx2 * 9) div 10
                        in (0, snd (evict_lru_blocks ctx2 target)))
                  else (0, ctx2))))"

text \<open>
  \<open>cache_block_invalidate_range\<close>: one iteration of its loop removes the block file
  of index \<open>i\<close> when \<open>stat\<close> finds it, and takes its size off the counter.
\<close>

definition invalidate_block :: "cache_block_ctx \<Rightarrow> string \<Rightarrow> size_t \<Rightarrow> cache_block_ctx" where
  "invalidate_block ctx path i =
     (let block_path = get_block_path path i in
      case map_of (blocks_dir ctx) block_path of
        None \<Rightarrow> ctx
      | Some f \<Rightarrow> ctx\<lparr>blocks_dir := AList.delete block_path (blocks_dir ctx),
                      current_cache_size := current_cache_size ctx - st_size_of f\<rparr>)"

text \<open>
  The loop \<open>for (size_t i = start_block; i <= end_block; i++)\<close> counts in 64-bit
  words; it does not end when \<open>end_block\<close> is the largest word, which is the value
  \<open>None\<close> here.
\<close>

partial_function (option) invalidate_range_loop ::
    "cache_block_ctx \<Rightarrow> string \<Rightarrow> size_t \<Rightarrow> size_t \<Rightarrow> cache_block_ctx option" where
  "invalidate_range_loop ctx path i end_block =
     (if i \<le> end_block
      then invalidate_range_loop (invalidate_block ctx path i) path (i + 1) end_block
      else Some ctx)"

text \<open>
  \<open>offset\<close> is an \<open>off_t\<close>; dividing it by the \<open>size_t\<close> block size converts it to
  an unsigned 64-bit word first. \<open>cache_block_init\<close> never leaves a block size of 0; a
  division by it would trap, which is \<open>None\<close> as well.
\<close>

definition cache_block_invalidate_range :: "cache_block_ctx \<Rightarrow> string \<Rightarrow> size_t \<Rightarrow> size_t
    \<Rightarrow> (int \<times> cache_block_ctx) option" where
  "cache_block_invalidate_range ctx path offset sz =
     (if block_size ctx = 0 then None
      else let start_block = offset div block_size ctx;
               end_block = (offset + sz) div block_size ctx
           in map_option (\<lambda>ctx'. (0, ctx')) (invalidate_range_loop ctx path start_block end_block))"

text \<open>
  \<open>cache_block_invalidate_file\<close> lists the directory \<open>blocks/h1/h2\<close> and unlinks every
  name that starts with the 16 hexadecimal digits of the hash and a dash.
\<close>

definition in_hash_dir :: "string \<Rightarrow> block_path \<Rightarrow> bool" where
  "in_hash_dir path p =
     (let hash = hash_path path
      in bp_h1 p = ucast (drop_bit 8 hash AND 0xFF) \<and> bp_h2 p = ucast (hash AND 0xFF)
         \<and> bp_hash p = hash)"

fun invalidate_file_loop :: "string \<Rightarrow> blocks_tree \<Rightarrow> cache_block_ctx \<Rightarrow> cache_block_ctx" where
  "invalidate_file_loop path [] ctx = ctx"
| "invalidate_file_loop path ((p, f) # des) ctx =
     (if in_hash_dir path p
      then (case map_of (blocks_dir ctx) p of
              None \<Rightarrow> invalidate_file_loop path des ctx
            | Some st \<Rightarrow>
                invalidate_file_loop path des
                  (ctx\<lparr>blocks_dir := AList.delete p (blocks_dir ctx),
                       current_cache_size := current_cache_size ctx - st_size_of st\<rparr>))
      else invalidate_file_loop path des ctx)"

definition cache_block_invalidate_file :: "cache_block_ctx \<Rightarrow> string \<Rightarrow> int \<times> cache_block_ctx" where
  "cache_block_invalidate_file ctx path = (0, invalidate_file_loop path (blocks_dir ctx) ctx)"

definition cache_block_get_stats :: "cache_block_ctx \<Rightarrow> size_t \<times> size_t" where
  "cache_block_get_stats ctx = (current_cache_size ctx, max_cache_size ctx)"

section \<open>The metadata store (cache\_meta.c, SQLite)\<close>

text \<open>
  \<open>struct stat\<close>, as far as the cache reads it: \<open>off_t\<close> and \<open>time_t\<close> values are
  integers (within the signed 64-bit range), \<open>mode_t\<close>, \<open>uid_t\<close> and \<open>gid_t\<close> are
  unsigned 32-bit words, \<open>ino_t\<close> is an unsigned 64-bit word.
\<close>

record stat =
  st_mode :: "32 word"
  st_size :: int
  st_mtime :: int
  st_ctime :: int
  st_uid :: "32 word"
  st_gid :: "32 word"
  st_ino :: "64 word"

text \<open>
  The enumeration \<open>cache_entry_type_t\<close> by its values; a value of the type is a C
  \<open>int\<close>, 32 bits.
\<close>

definition CACHE_ENTRY_FILE :: "32 word" where "CACHE_ENTRY_FILE = 1"
definition CACHE_ENTRY_DIR :: "32 word" where "CACHE_ENTRY_DIR = 2"
definition CACHE_ENTRY_NEG :: "32 word" where "CACHE_ENTRY_NEG = 3"

record cache_meta_entry =
  e_type :: "32 word"
  e_size :: int
  e_mtime :: int
  e_ctime :: int
  e_mode :: "32 word"
  e_uid :: "32 word"
  e_gid :: "32 word"
  e_ino :: "64 word"
  e_cached_at :: int
  e_valid_until :: int

record cache_dir_entry =
  d_name :: string
  d_type :: "32 word"

text \<open>
  The two tables. A row of \<open>metadata\<close> is keyed by \<open>path\<close>, a row of \<open>dir_entries\<close>
  by \<open>(dir_path, entry_name)\<close>; every other column is an SQLite INTEGER.
\<close>

record meta_row =
  c_type :: int
  c_size :: int
  c_mtime :: int
  c_ctime :: int
  c_mode :: int
  c_uid :: int
  c_gid :: int
  c_ino :: int
  c_cached_at :: int
  c_valid_until :: int

record dir_row =
  c_entry_type :: int
  c_dir_mtime :: int
  c_dir_cached_at :: int
  c_dir_valid_until :: int

record cache_meta_ctx =
  meta_ttl :: int
  dir_ttl :: int
  metadata :: "(string \<times> meta_row) list"
  dir_entries :: "((string \<times> string) \<times> dir_row) list"

text \<open>
  The SQLite calls. \<open>sqlite3_bind_int\<close> takes a C \<open>int\<close>, given here by its 32
  bits: an unsigned 32-bit value passed to it is read as two's complement.
  \<open>sqlite3_bind_int64\<close> takes a signed 64-bit value: an \<open>off_t\<close> or \<open>time_t\<close> as it
  is, an \<open>ino_t\<close> read as two's complement. \<open>sqlite3_column_int\<close> yields the low 32
  bits of the stored integer, \<open>sqlite3_column_int64\<close> the stored integer (its 64 bits
  when it is assigned to an \<open>ino_t\<close>). \<open>INSERT OR REPLACE\<close> removes the row that holds
  the key and adds the new one. A \<open>SELECT\<close> steps to \<open>SQLITE_ROW\<close> exactly when a row matches. The result of
  \<open>sqlite3_step\<close> on an \<open>INSERT\<close> is an input of the model wherever the source
  inspects it (\<open>SQLITE_DONE\<close>, or an error that leaves the table as it was); the
  statements whose result the source drops (\<open>BEGIN\<close>, \<open>DELETE\<close>, \<open>COMMIT\<close>,
  \<open>ROLLBACK\<close>) take effect.
\<close>

datatype sqlite_rc = SQLITE_DONE | SQLITE_ERROR

definition sqlite3_bind_int :: "32 word \<Rightarrow> int" where
  "sqlite3_bind_int v = sint v"

definition sqlite3_bind_int64_ino :: "64 word \<Rightarrow> int" where
  "sqlite3_bind_int64_ino v = sint v"

definition sqlite3_column_int :: "int \<Rightarrow> 32 word" where
  "sqlite3_column_int v = word_of_int v"

definition sqlite3_column_int64_ino :: "int \<Rightarrow> 64 word" where
  "sqlite3_column_int64_ino v = word_of_int v"

definition sql_insert_or_replace :: "'k \<Rightarrow> 'v \<Rightarrow> ('k \<times> 'v) list \<Rightarrow> ('k \<times> 'v) list" where
  "sql_insert_or_replace k v t = AList.delete k t @ [(k, v)]"

definition cache_meta_init :: "(string \<times> meta_row) list \<Rightarrow> ((string \<times> string) \<times> dir_row) list
    \<Rightarrow> int \<Rightarrow> int \<Rightarrow> cache_meta_ctx" where
  "cache_meta_init meta_table dir_table mttl dttl =
     \<lparr>meta_ttl = mttl, dir_ttl = dttl, metadata = meta_table, dir_entries = dir_table\<rparr>"

text \<open>
  \<open>cache_meta_lookup\<close>: \<open>None\<close> is the return value -1 (not found), otherwise the
  entry filled from columns 1 to 10 and the flag \<open>now < valid_until\<close>.
\<close>

definition cache_meta_lookup :: "cache_meta_ctx \<Rightarrow> string \<Rightarrow> int \<Rightarrow> (cache_meta_entry \<times> bool) option" where
  "cache_meta_lookup ctx path now =
     (case map_of (metadata ctx) path of
        None \<Rightarrow> None
      | Some r \<Rightarrow>
          (let entry = \<lparr>e_type = sqlite3_column_int (c_type r),
                        e_size = c_size r,
                        e_mtime = c_mtime r,
                        e_ctime = c_ctime r,
                        e_mode = sqlite3_column_int (c_mode r),
                        e_uid = sqlite3_column_int (c_uid r),
                        e_gid = sqlite3_column_int (c_gid r),
                        e_ino = sqlite3_column_int64_ino (c_ino r),
                        e_cached_at = c_cached_at r,
                        e_valid_until = c_valid_until r\<rparr>
           in Some (entry, now < e_valid_until entry)))"

definition cache_meta_store :: "cache_meta_ctx \<Rightarrow> string \<Rightarrow> stat \<Rightarrow> int \<Rightarrow> sqlite_rc
    \<Rightarrow> int \<times> cache_meta_ctx" where
  "cache_meta_store ctx path stbuf now rc =
     (let row = \<lparr>c_type = sqlite3_bind_int CACHE_ENTRY_FILE,
                  c_size = st_size stbuf,
                  c_mtime = st_mtime stbuf,
                  c_ctime = st_ctime stbuf,
                  c_mode = sqlite3_bind_int (st_mode stbuf),
                  c_uid = sqlite3_bind_int (st_uid stbuf),
                  c_gid = sqlite3_bind_int (st_gid stbuf),
                  c_ino = sqlite3_bind_int64_ino (st_ino stbuf),
                  c_cached_at = now,
                  c_valid_until = now + meta_ttl ctx\<rparr>
      in if rc \<noteq> SQLITE_DONE then (-1, ctx)
         else (0, ctx\<lparr>metadata := sql_insert_or_replace path row (metadata ctx)\<rparr>))"

definition cache_meta_store_negative :: "cache_meta_ctx \<Rightarrow> string \<Rightarrow> int \<Rightarrow> sqlite_rc
    \<Rightarrow> int \<times> cache_meta_ctx" where
  "cache_meta_store_negative ctx path now rc =
     (let row = \<lparr>c_type = sqlite3_bind_int CACHE_ENTRY_NEG,
                  c_size = 0, c_mtime = 0, c_ctime = 0,
                  c_mode = sqlite3_bind_int 0, c_uid = sqlite3_bind_int 0,
                  c_gid = sqlite3_bind_int 0,
                  c_ino = 0,
                  c_cached_at = now,
                  c_valid_until = now + meta_ttl ctx\<rparr>
      in if rc \<noteq> SQLITE_DONE then (-1, ctx)
         else (0, ctx\<lparr>metadata := sql_insert_or_replace path row (metadata ctx)\<rparr>))"

definition cache_meta_invalidate :: "cache_meta_ctx \<Rightarrow> string \<Rightarrow> int \<times> cache_meta_ctx" where
  "cache_meta_invalidate ctx path = (0, ctx\<lparr>metadata := AList.delete path (metadata ctx)\<rparr>)"

subsection \<open>Directory listings\<close>

text \<open>
  \<open>SELECT ... FROM dir_entries WHERE dir_path = ? ORDER BY entry_name\<close>: the rows of
  the directory, ordered by name (bytewise, the default collation).
\<close>

definition select_dir :: "((string \<times> string) \<times> dir_row) list \<Rightarrow> string
    \<Rightarrow> ((string \<times> string) \<times> dir_row) list" where
  "select_dir t path = sort_key (\<lambda>(k, r). snd k) (filter (\<lambda>(k, r). fst k = path) t)"

text \<open>
  \<open>cache_dir_lookup\<close>: \<open>None\<close> is the return value -1; otherwise the entries, their
  count, and \<open>dir_mtime\<close> and the validity flag taken from the first row.
\<close>

definition cache_dir_lookup :: "cache_meta_ctx \<Rightarrow> string \<Rightarrow> int
    \<Rightarrow> (cache_dir_entry list \<times> nat \<times> int \<times> bool) option" where
  "cache_dir_lookup ctx path now =
     (let rows = select_dir (dir_entries ctx) path;
          entry_count = length rows
      in if entry_count = 0 then None
         else
           (let entries = map (\<lambda>(k, r). \<lparr>d_name = snd k,
                                            d_type = sqlite3_column_int (c_entry_type r)\<rparr>) rows;
                first_mtime = c_dir_mtime (snd (hd rows));
                first_valid_until = c_dir_valid_until (snd (hd rows))
            in Some (entries, entry_count, first_mtime, now < first_valid_until)))"

text \<open>
  The insert loop of \<open>cache_dir_store\<close>: \<open>rc i\<close> is what \<open>sqlite3_step\<close> returns for
  the insert of entry \<open>i\<close>; the loop gives up (\<open>None\<close>) at the first one that is not
  \<open>SQLITE_DONE\<close>.
\<close>

fun dir_insert_loop :: "string \<Rightarrow> cache_dir_entry list \<Rightarrow> int \<Rightarrow> int \<Rightarrow> int \<Rightarrow> (nat \<Rightarrow> sqlite_rc)
    \<Rightarrow> nat \<Rightarrow> ((string \<times> string) \<times> dir_row) list \<Rightarrow> ((string \<times> string) \<times> dir_row) list option" where
  "dir_insert_loop path [] dir_mtime now valid_until rc i t = Some t"
| "dir_insert_loop path (e # es) dir_mtime now valid_until rc i t =
     (if rc i \<noteq> SQLITE_DONE then None
      else dir_insert_loop path es dir_mtime now valid_until rc (Suc i)
             (sql_insert_or_replace (path, d_name e)
                \<lparr>c_entry_type = sqlite3_bind_int (d_type e), c_dir_mtime = dir_mtime,
                 c_dir_cached_at = now, c_dir_valid_until = valid_until\<rparr> t))"

text \<open>
  \<open>cache_dir_store\<close>. The entry array is \<open>None\<close> for a null pointer, and \<open>count\<close> is
  the length of the array. \<open>BEGIN TRANSACTION\<close> remembers the tables, \<open>ROLLBACK\<close>
  brings them back, \<open>COMMIT\<close> keeps the changes.
\<close>

definition cache_dir_store :: "cache_meta_ctx \<Rightarrow> string \<Rightarrow> cache_dir_entry list option \<Rightarrow> int \<Rightarrow> int
    \<Rightarrow> (nat \<Rightarrow> sqlite_rc) \<Rightarrow> int \<times> cache_meta_ctx" where
  "cache_dir_store ctx path entries dir_mtime now rc =
     (case entries of
        None \<Rightarrow> (-1, ctx)
      | Some es \<Rightarrow>
          (let began = ctx;
               deleted = filter (\<lambda>(k, r). fst k \<noteq> path) (dir_entries ctx);
               valid_until = now + dir_ttl ctx
           in case dir_insert_loop path es dir_mtime now valid_until rc 0 deleted of
                None \<Rightarrow> (-1, began)
              | Some t \<Rightarrow> (0, ctx\<lparr>dir_entries := t\<rparr>)))"

definition cache_dir_invalidate :: "cache_meta_ctx \<Rightarrow> string \<Rightarrow> int \<times> cache_meta_ctx" where
  "cache_dir_invalidate ctx path =
     (0, ctx\<lparr>dir_entries := filter (\<lambda>(k, r). fst k \<noteq> path) (dir_entries ctx)\<rparr>)"

section \<open>The metadata store, LMDB variant\<close>

text \<open>
  The second \<open>cache_meta.c\<close> keeps one packed \<open>meta_entry_serialized_t\<close> per path in an
  LMDB database. Every LMDB call whose result the source inspects can fail; which one
  does is an input of the model.
\<close>

record meta_entry_serialized =
  s_type :: "8 word"
  s_size :: int
  s_mtime :: int
  s_ctime :: int
  s_mode :: "32 word"
  s_uid :: "32 word"
  s_gid :: "32 word"
  s_cached_at :: int
  s_valid_until :: int

record lmdb_meta_ctx =
  l_meta_ttl :: int
  l_dir_ttl :: int
  meta_dbi :: "(string \<times> meta_entry_serialized) list"

datatype mdb_rc = MDB_SUCCESS | MDB_TXN_BEGIN_FAILS | MDB_OP_FAILS | MDB_COMMIT_FAILS

text \<open>\<open>S_ISDIR(m)\<close>: \<open>(m & S_IFMT) == S_IFDIR\<close>, octal 0170000 and 0040000.\<close>

definition S_ISDIR :: "32 word \<Rightarrow> bool" where
  "S_ISDIR m = (m AND 0xF000 = 0x4000)"

text \<open>
  The LMDB \<open>cache_meta_lookup\<close> assigns every field of the caller's entry but
  \<open>ino\<close>, which stays as the caller had it (\<open>entry0\<close>).
\<close>

definition cache_meta_lookup_lmdb :: "lmdb_meta_ctx \<Rightarrow> string \<Rightarrow> cache_meta_entry \<Rightarrow> int \<Rightarrow> mdb_rc
    \<Rightarrow> (cache_meta_entry \<times> bool) option" where
  "cache_meta_lookup_lmdb ctx path entry0 now rc =
     (if rc = MDB_TXN_BEGIN_FAILS then None
      else case map_of (meta_dbi ctx) path of
        None \<Rightarrow> None
      | Some stored \<Rightarrow>
          if rc = MDB_OP_FAILS then None
          else
            (let entry = entry0\<lparr>e_type := ucast (s_type stored),
                               e_size := s_size stored,
                               e_mtime := s_mtime stored,
                               e_ctime := s_ctime stored,
                               e_mode := s_mode stored,
                               e_uid := s_uid stored,
                               e_gid := s_gid stored,
                               e_cached_at := s_cached_at stored,
                               e_valid_until := s_valid_until stored\<rparr>
             in Some (entry, now < e_valid_until entry)))"

definition mdb_put_commit :: "lmdb_meta_ctx \<Rightarrow> string \<Rightarrow> meta_entry_serialized \<Rightarrow> mdb_rc
    \<Rightarrow> int \<times> lmdb_meta_ctx" where
  "mdb_put_commit ctx path entry rc =
     (if rc = MDB_TXN_BEGIN_FAILS then (-1, ctx)
      else if rc = MDB_OP_FAILS then (-1, ctx)
      else if rc = MDB_COMMIT_FAILS then (-1, ctx)
      else (0, ctx\<lparr>meta_dbi := AList.update path entry (meta_dbi ctx)\<rparr>))"

definition cache_meta_store_lmdb :: "lmdb_meta_ctx \<Rightarrow> string \<Rightarrow> stat \<Rightarrow> int \<Rightarrow> mdb_rc
    \<Rightarrow> int \<times> lmdb_meta_ctx" where
  "cache_meta_store_lmdb ctx path stbuf now rc =
     (let entry = \<lparr>s_type = (if S_ISDIR (st_mode stbuf) then ucast CACHE_ENTRY_DIR
                              else ucast CACHE_ENTRY_FILE),
                    s_size = st_size stbuf,
                    s_mtime = st_mtime stbuf,
                    s_ctime = st_ctime stbuf,
                    s_mode = st_mode stbuf,
                    s_uid = st_uid stbuf,
                    s_gid = st_gid stbuf,
                    s_cached_at = now,
                    s_valid_until = now + l_meta_ttl ctx\<rparr>
      in mdb_put_commit ctx path entry rc)"

definition cache_meta_store_negative_lmdb :: "lmdb_meta_ctx \<Rightarrow> string \<Rightarrow> int \<Rightarrow> mdb_rc
    \<Rightarrow> int \<times> lmdb_meta_ctx" where
  "cache_meta_store_negative_lmdb ctx path now rc =
     (let entry = \<lparr>s_type = ucast CACHE_ENTRY_NEG,
                    s_size = 0, s_mtime = 0, s_ctime = 0, s_mode = 0, s_uid = 0, s_gid = 0,
                    s_cached_at = now,
                    s_valid_until = now + 2\<rparr>
      in mdb_put_commit ctx path entry rc)"

section \<open>Coherency (cache\_coherency.c)\<close>

definition cache_coherency_validate_meta :: "cache_meta_entry \<Rightarrow> stat \<Rightarrow> bool" where
  "cache_coherency_validate_meta cached_entry backend_stat =
     (e_mtime cached_entry = st_mtime backend_stat \<and> e_size cached_entry = st_size backend_stat)"

definition cache_coherency_validate_dir :: "int \<Rightarrow> stat \<Rightarrow> bool" where
  "cache_coherency_validate_dir cached_mtime backend_stat = (cached_mtime = st_mtime backend_stat)"

text \<open>
  \<open>cache_coherency_check_and_invalidate\<close>, over the SQLite store. The block context
  is \<open>None\<close> when the caller has no block cache (a null pointer).
\<close>

definition cache_coherency_check_and_invalidate ::
    "cache_meta_ctx \<Rightarrow> cache_block_ctx option \<Rightarrow> string \<Rightarrow> stat \<Rightarrow> int
     \<Rightarrow> int \<times> cache_meta_ctx \<times> cache_block_ctx option" where
  "cache_coherency_check_and_invalidate meta_ctx block_ctx path backend_stat now =
     (case cache_meta_lookup meta_ctx path now of
        None \<Rightarrow> (0, meta_ctx, block_ctx)
      | Some (cached, valid) \<Rightarrow>
          if \<not> cache_coherency_validate_meta cached backend_stat
          then (0, snd (cache_meta_invalidate meta_ctx path),
                map_option (\<lambda>b. snd (cache_block_invalidate_file b path)) block_ctx)
          else (0, meta_ctx, block_ctx))"

section \<open>Concrete stores\<close>



text \<open>A store with blocks of 4 bytes holding blocks 0 and 1 of \<open>/f\<close>.\<close>

definition two_blocks :: cache_block_ctx where
  "two_blocks =
     snd (cache_block_write
            (snd (cache_block_write (cache_block_init [] 4 0) ''/f'' 0 [1, 2, 3, 4] 100 IO_OK))
            ''/f'' 1 [5, 6, 7, 8] 101 IO_OK)"

text \<open>A fresh store with no size limit, after one and after two writes of block 0 of \<open>/f\<close>.\<close>

definition written_once :: cache_block_ctx where
  "written_once = snd (cache_block_write (cache_block_init [] 4096 0) ''/f'' 0 [1, 2] 100 IO_OK)"

definition written_twice :: cache_block_ctx where
  "written_twice = snd (cache_block_write written_once ''/f'' 0 [3, 4] 101 IO_OK)"

text \<open>
  A store that cached one block of 20 bytes while it had no size limit, opened again
  (\<open>cache_block_init\<close> over the same directory) with a limit of 10 bytes.
\<close>

definition first_mount :: cache_block_ctx where
  "first_mount =
     snd (cache_block_write (cache_block_init [] 4096 0) ''/f'' 0 (replicate 20 0) 1 IO_OK)"

definition second_mount :: cache_block_ctx where
  "second_mount = cache_block_init (blocks_dir first_mount) 4096 10"

text \<open>
  A regular file and a directory as the backend reports them (\<open>S_IFREG | 0644\<close>,
  \<open>S_IFDIR | 0755\<close>), and the same file one second after a modification.
\<close>

definition stat_file :: stat where
  "stat_file = \<lparr>st_mode = 0x81A4, st_size = 11, st_mtime = 1000, st_ctime = 1000,
                 st_uid = 501, st_gid = 20, st_ino = 42\<rparr>"

definition stat_file_newer :: stat where
  "stat_file_newer = stat_file\<lparr>st_mtime := 1001\<rparr>"

definition stat_dir :: stat where
  "stat_dir = \<lparr>st_mode = 0x41ED, st_size = 4096, st_mtime = 1000, st_ctime = 1000,
                st_uid = 501, st_gid = 20, st_ino = 7\<rparr>"

text \<open>
  An empty SQLite store with the documented default TTLs (5 s for attributes, 10 s for
  directories), the same store after \<open>/f\<close> was cached, and an empty LMDB store with an
  attribute TTL of 1 s.
\<close>

definition meta_empty :: cache_meta_ctx where
  "meta_empty = cache_meta_init [] [] 5 10"

definition meta_of_f :: cache_meta_ctx where
  "meta_of_f = snd (cache_meta_store meta_empty ''/f'' stat_file 2000 SQLITE_DONE)"

definition lmdb_short_ttl :: lmdb_meta_ctx where
  "lmdb_short_ttl = \<lparr>l_meta_ttl = 1, l_dir_ttl = 10, meta_dbi = []\<rparr>"

definition entry_blank :: cache_meta_entry where
  "entry_blank = \<lparr>e_type = 0, e_size = 0, e_mtime = 0, e_ctime = 0, e_mode = 0, e_uid = 0,
                   e_gid = 0, e_ino = 0, e_cached_at = 0, e_valid_until = 0\<rparr>"

text \<open>
  Every insert succeeds; the second insert fails. The store with the listing
  \<open>[old]\<close> cached for \<open>/d\<close> at time 90, and a new listing of two entries.
\<close>

definition all_done :: "nat \<Rightarrow> sqlite_rc" where
  "all_done i = SQLITE_DONE"

definition second_fails :: "nat \<Rightarrow> sqlite_rc" where
  "second_fails i = (if i = 1 then SQLITE_ERROR else SQLITE_DONE)"

definition listed_dir :: cache_meta_ctx where
  "listed_dir =
     snd (cache_dir_store meta_empty ''/d''
            (Some [\<lparr>d_name = ''old'', d_type = CACHE_ENTRY_FILE\<rparr>]) 6 90 all_done)"

definition new_listing :: "cache_dir_entry list" where
  "new_listing = [\<lparr>d_name = ''y'', d_type = CACHE_ENTRY_FILE\<rparr>,
                  \<lparr>d_name = ''x'', d_type = CACHE_ENTRY_DIR\<rparr>]"

section \<open>Notions for the proofs\<close>

text \<open>
  The store is accounted when its directory has no name twice and its counter is the
  sum of the sizes of its files.
\<close>

definition accounted :: "cache_block_ctx \<Rightarrow> bool" where
  "accounted ctx =
     (distinct (map fst (blocks_dir ctx)) \<and>
      current_cache_size ctx = calculate_cache_size (blocks_dir ctx))"

text \<open>The iterations of the loop of \<open>cache_block_invalidate_range\<close> for a list of indices.\<close>

definition invalidate_blocks :: "cache_block_ctx \<Rightarrow> string \<Rightarrow> size_t list \<Rightarrow> cache_block_ctx" where
  "invalidate_blocks ctx path js = foldl (\<lambda>c j. invalidate_block c path j) ctx js"

text \<open>The row that the insert loop of \<open>cache_dir_store\<close> writes for one entry.\<close>

definition dir_row_of :: "string \<Rightarrow> int \<Rightarrow> int \<Rightarrow> int \<Rightarrow> cache_dir_entry
    \<Rightarrow> (string \<times> string) \<times> dir_row" where
  "dir_row_of path dir_mtime now valid_until e =
     ((path, d_name e),
      \<lparr>c_entry_type = sqlite3_bind_int (d_type e), c_dir_mtime = dir_mtime,
       c_dir_cached_at = now, c_dir_valid_until = valid_until\<rparr>)"

section \<open>Properties of the block store\<close>








lemma write_call_all:
  "fst (write_call io buf) = int (length buf) \<Longrightarrow> snd (write_call io buf) = buf"
  by (auto simp: write_call_def min_def split: write_io.splits if_splits)



text \<open>Eviction unlinks files and changes none.\<close>

lemma evict_loop_only_removes:
  "map_of (fst (evict_loop cur tgt bs tree ev)) k = None \<or>
   map_of (fst (evict_loop cur tgt bs tree ev)) k = map_of tree k"
proof (induction bs arbitrary: tree ev)
  case Nil
  show ?case by simp
next
  case (Cons b bs)
  show ?case
  proof (cases "cur - ev > tgt \<and> map_of tree (bi_path b) \<noteq> None")
    case True
    have "map_of (AList.delete (bi_path b) tree) k = None \<or>
          map_of (AList.delete (bi_path b) tree) k = map_of tree k"
      by (simp add: delete_conv')
    with True Cons.IH [of "AList.delete (bi_path b) tree" "ev + bi_size b"] show ?thesis
      by auto
  next
    case False
    with Cons.IH [of tree ev] show ?thesis by auto
  qed
qed




lemmas block_store_defs =
  cache_block_init_def cache_block_write_def write_call_def cache_block_read_def
  pread_call_def MAX_RW_COUNT_def
  cache_block_exists_def
  cache_block_get_stats_def calculate_cache_size_def fs_create_trunc_write_def st_size_of_def
  evict_lru_blocks_def collect_blocks_def invalidate_block_def get_block_path_def
  hash_path_def hash_step_def DEFAULT_BLOCK_SIZE_def




subsection \<open>The counter and the eviction pass\<close>

text \<open>
  Every operation keeps an accounted store accounted, except a write over a block
  that is already cached and a write that fails after \<open>open\<close>. After a write of a new
  block that returned 0 the counter is within the limit, when there is one.
\<close>

lemma foldl_size_acc:
  "foldl (\<lambda>total (p, f). total + st_size_of f) a tree =
   a + foldl (\<lambda>total (p, f). total + st_size_of f) 0 tree"
proof (induction tree arbitrary: a)
  case Nil
  show ?case by simp
next
  case (Cons x xs)
  obtain p f where x: "x = (p, f)" by (cases x)
  show ?case
    using Cons.IH [of "a + st_size_of f"] Cons.IH [of "st_size_of f"]
    by (simp add: x add.assoc)
qed

lemma calculate_cache_size_Nil [simp]: "calculate_cache_size [] = 0"
  by (simp add: calculate_cache_size_def)

lemma calculate_cache_size_Cons [simp]:
  "calculate_cache_size ((p, f) # tree) = st_size_of f + calculate_cache_size tree"
  using foldl_size_acc [of "st_size_of f" tree]
  by (simp add: calculate_cache_size_def)

lemma calculate_cache_size_append [simp]:
  "calculate_cache_size (xs @ ys) = calculate_cache_size xs + calculate_cache_size ys"
  by (induction xs) (auto simp: add.assoc)

lemma calculate_cache_size_delete:
  assumes "distinct (map fst tree)" and "map_of tree k = Some f"
  shows "calculate_cache_size (AList.delete k tree) = calculate_cache_size tree - st_size_of f"
  using assms
proof (induction tree)
  case Nil
  then show ?case by simp
next
  case (Cons x xs)
  obtain p g where x: "x = (p, g)" by (cases x)
  show ?case
  proof (cases "p = k")
    case True
    with Cons.prems x have "g = f" and "k \<notin> fst ` set xs" by auto
    then show ?thesis by (simp add: x True)
  next
    case False
    with Cons x show ?thesis by simp
  qed
qed

lemma calculate_cache_size_absent_update:
  assumes "map_of tree k = None"
  shows "calculate_cache_size (AList.update k f tree) = calculate_cache_size tree + st_size_of f"
  using assms
proof (induction tree)
  case Nil
  show ?case by simp
next
  case (Cons x xs)
  obtain p g where x: "x = (p, g)" by (cases x)
  with Cons show ?case by (auto simp: add.assoc split: if_splits)
qed

text \<open>The eviction loop keeps the account, and stops at the target or when no file is left.\<close>

lemma evict_loop_accounted:
  assumes "distinct (map fst tree)"
      and "\<forall>b \<in> set bs. \<forall>f. map_of tree (bi_path b) = Some f \<longrightarrow> bi_size b = st_size_of f"
  shows "distinct (map fst (fst (evict_loop cur tgt bs tree ev))) \<and>
         calculate_cache_size (fst (evict_loop cur tgt bs tree ev)) + snd (evict_loop cur tgt bs tree ev) =
           calculate_cache_size tree + ev \<and>
         (cur - snd (evict_loop cur tgt bs tree ev) \<le> tgt \<or>
          (\<forall>b \<in> set bs. map_of (fst (evict_loop cur tgt bs tree ev)) (bi_path b) = None))"
  using assms
proof (induction bs arbitrary: tree ev)
  case Nil
  then show ?case by simp
next
  case (Cons b bs)
  show ?case
  proof (cases "cur - ev > tgt")
    case False
    then have "evict_loop cur tgt (b # bs) tree ev = (tree, ev)" by simp
    with False Cons.prems(1) show ?thesis by (simp add: not_less)
  next
    case over: True
    show ?thesis
    proof (cases "map_of tree (bi_path b)")
      case None
      have absent: "map_of (fst (evict_loop cur tgt bs tree ev)) (bi_path b) = None"
        using evict_loop_only_removes [of cur tgt bs tree ev "bi_path b"] None by auto
      have step: "evict_loop cur tgt (b # bs) tree ev = evict_loop cur tgt bs tree ev"
        using over None by simp
      have "\<forall>b \<in> set bs. \<forall>f. map_of tree (bi_path b) = Some f \<longrightarrow> bi_size b = st_size_of f"
        using Cons.prems(2) by simp
      from Cons.IH [OF Cons.prems(1) this, of ev] absent show ?thesis
        unfolding step by auto
    next
      case (Some f)
      let ?tree = "AList.delete (bi_path b) tree"
      let ?ev = "ev + bi_size b"
      from Cons.prems(2) Some have size: "bi_size b = st_size_of f" by simp
      have d: "distinct (map fst ?tree)"
        using Cons.prems(1) by (rule distinct_delete)
      have sizes: "\<forall>b' \<in> set bs. \<forall>f. map_of ?tree (bi_path b') = Some f \<longrightarrow> bi_size b' = st_size_of f"
        using Cons.prems(2) by (auto simp: delete_conv' split: if_splits)
      have absent: "map_of (fst (evict_loop cur tgt bs ?tree ?ev)) (bi_path b) = None"
        using evict_loop_only_removes [of cur tgt bs ?tree ?ev "bi_path b"]
        by (auto simp: delete_conv')
      have "calculate_cache_size ?tree + ?ev = calculate_cache_size tree + ev"
        using calculate_cache_size_delete [OF Cons.prems(1) Some] size by simp
      moreover have step: "evict_loop cur tgt (b # bs) tree ev = evict_loop cur tgt bs ?tree ?ev"
        using over Some by simp
      ultimately show ?thesis
        using Cons.IH [OF d sizes, of ?ev] absent unfolding step by auto
    qed
  qed
qed


lemma map_of_all_None: "(\<forall>k. map_of tree k = None) \<Longrightarrow> tree = []"
  by (simp add: map_of_eq_empty_iff [symmetric] fun_eq_iff)

lemma evict_lru_blocks_accounted:
  assumes "accounted ctx"
  shows "accounted (snd (evict_lru_blocks ctx tgt)) \<and>
         current_cache_size (snd (evict_lru_blocks ctx tgt)) \<le> tgt"
proof (cases "current_cache_size ctx \<le> tgt")
  case True
  with assms show ?thesis by (simp add: evict_lru_blocks_def)
next
  case False
  let ?tree = "blocks_dir ctx"
  let ?bs = "sort_key bi_atime (collect_blocks ?tree)"
  let ?r = "evict_loop (current_cache_size ctx) tgt ?bs ?tree 0"
  from assms have d: "distinct (map fst ?tree)"
    and cur: "current_cache_size ctx = calculate_cache_size ?tree"
    by (simp_all add: accounted_def)
  have ne: "collect_blocks ?tree \<noteq> []"
  proof
    assume "collect_blocks ?tree = []"
    then have "?tree = []" by (simp add: collect_blocks_def)
    with cur False show False by simp
  qed
  have sizes: "\<forall>b \<in> set ?bs. \<forall>f. map_of ?tree (bi_path b) = Some f \<longrightarrow> bi_size b = st_size_of f"
    using d by (auto simp: collect_blocks_def dest: map_of_SomeD eq_key_imp_eq_value)
  have res: "snd (evict_lru_blocks ctx tgt) =
        ctx\<lparr>blocks_dir := fst ?r, current_cache_size := current_cache_size ctx - snd ?r\<rparr>"
    using False ne by (simp add: evict_lru_blocks_def Let_def case_prod_unfold)
  from evict_loop_accounted [OF d sizes, of "current_cache_size ctx" tgt 0]
  have d': "distinct (map fst (fst ?r))"
    and sum: "calculate_cache_size (fst ?r) + snd ?r = calculate_cache_size ?tree"
    and stop: "current_cache_size ctx - snd ?r \<le> tgt \<or>
               (\<forall>b \<in> set ?bs. map_of (fst ?r) (bi_path b) = None)"
    by simp_all
  from sum cur have acc: "current_cache_size ctx - snd ?r = calculate_cache_size (fst ?r)"
    by (simp add: algebra_simps)
  have "current_cache_size ctx - snd ?r \<le> tgt"
  proof (rule disjE [OF stop])
    assume gone: "\<forall>b \<in> set ?bs. map_of (fst ?r) (bi_path b) = None"
    have "map_of (fst ?r) k = None" for k
    proof (cases "map_of ?tree k")
      case None
      with evict_loop_only_removes [of "current_cache_size ctx" tgt ?bs ?tree 0 k]
      show ?thesis by auto
    next
      case (Some f)
      then have "(k, f) \<in> set ?tree" by (rule map_of_SomeD)
      then have "\<lparr>bi_path = k, bi_atime = bf_atime f, bi_size = st_size_of f\<rparr> \<in> set ?bs"
        by (force simp: collect_blocks_def)
      with gone show ?thesis by force
    qed
    then have "fst ?r = []" by (simp add: map_of_all_None)
    with acc show ?thesis by simp
  qed simp
  with d' acc show ?thesis by (simp add: res accounted_def)
qed

lemma nine_tenths_le: "(m * 9) div 10 \<le> (m :: 64 word)"
proof -
  have "unat ((m * 9) div 10) = ((unat m * 9) mod 2 ^ 64) div 10"
    by (simp add: unat_div unat_word_ariths)
  moreover have "((unat m * 9) mod 2 ^ 64) div 10 \<le> unat m"
  proof (cases "unat m * 9 < 2 ^ 64")
    case True
    then show ?thesis by simp
  next
    case False
    have "((unat m * 9) mod 2 ^ 64) div 10 \<le> (2 ^ 64 - 1) div (10 :: nat)"
      by (intro div_le_mono) simp
    also have "\<dots> \<le> unat m" using False by simp
    finally show ?thesis .
  qed
  ultimately show ?thesis by (simp add: word_le_nat_alt)
qed

lemma cache_block_write_accounted:
  assumes "accounted ctx"
      and "\<not> cache_block_exists ctx p i"
      and "cache_block_write ctx p i buf now io = (0, ctx')"
  shows "accounted ctx' \<and> (max_cache_size ctx' > 0 \<longrightarrow> current_cache_size ctx' \<le> max_cache_size ctx')"
proof -
  let ?k = "get_block_path p i"
  define ctx2 where "ctx2 = ctx\<lparr>blocks_dir := fs_create_trunc_write (blocks_dir ctx) ?k buf now,
      current_cache_size := current_cache_size ctx + of_nat (length buf)\<rparr>"
  from assms(2) have absent: "map_of (blocks_dir ctx) ?k = None"
    by (simp add: cache_block_exists_def)
  have acc2: "accounted ctx2"
    using assms(1) absent
    by (simp add: accounted_def ctx2_def fs_create_trunc_write_def distinct_update
        calculate_cache_size_absent_update st_size_of_def)
  have max2: "max_cache_size ctx2 = max_cache_size ctx" by (simp add: ctx2_def)
  have cases: "(ctx' = ctx2 \<and> \<not> (max_cache_size ctx2 > 0 \<and> current_cache_size ctx2 > max_cache_size ctx2)) \<or>
        ctx' = snd (evict_lru_blocks ctx2 ((max_cache_size ctx2 * 9) div 10))"
    using assms(3)
    by (auto simp: cache_block_write_def write_call_def Let_def ctx2_def min_def
        split: write_io.splits if_splits)
  then show ?thesis
  proof
    assume "ctx' = ctx2 \<and> \<not> (max_cache_size ctx2 > 0 \<and> current_cache_size ctx2 > max_cache_size ctx2)"
    with acc2 show ?thesis by (auto simp: not_less)
  next
    assume c: "ctx' = snd (evict_lru_blocks ctx2 ((max_cache_size ctx2 * 9) div 10))"
    have "max_cache_size ctx' = max_cache_size ctx2"
      by (auto simp: c evict_lru_blocks_def Let_def split: prod.splits)
    moreover from evict_lru_blocks_accounted [OF acc2, of "(max_cache_size ctx2 * 9) div 10"]
    have "accounted ctx'" and "current_cache_size ctx' \<le> (max_cache_size ctx2 * 9) div 10"
      by (simp_all add: c)
    ultimately show ?thesis
      using nine_tenths_le [of "max_cache_size ctx2"] by auto
  qed
qed


text \<open>
  Eviction goes by age: a file that the pass removed was accessed no later than any
  file that it kept.
\<close>

lemma evict_loop_oldest_first:
  assumes "sorted (map bi_atime bs)" and "distinct (map bi_path bs)"
      and "b1 \<in> set bs" and "b2 \<in> set bs"
      and "map_of tree (bi_path b1) \<noteq> None"
      and "map_of (fst (evict_loop cur tgt bs tree ev)) (bi_path b1) = None"
      and "map_of (fst (evict_loop cur tgt bs tree ev)) (bi_path b2) \<noteq> None"
  shows "bi_atime b1 \<le> bi_atime b2"
  using assms
proof (induction bs arbitrary: tree ev)
  case Nil
  then show ?case by simp
next
  case (Cons b bs)
  show ?case
  proof (cases "cur - ev > tgt")
    case False
    then have "evict_loop cur tgt (b # bs) tree ev = (tree, ev)" by simp
    with Cons.prems(5,6) show ?thesis by simp
  next
    case over: True
    from Cons.prems(1) have sorted: "sorted (map bi_atime bs)"
      and least: "\<forall>b' \<in> set bs. bi_atime b \<le> bi_atime b'" by simp_all
    from Cons.prems(2) have dist: "distinct (map bi_path bs)"
      and other: "\<forall>b' \<in> set bs. bi_path b' \<noteq> bi_path b" by (auto simp: image_iff)
    show ?thesis
    proof (cases "map_of tree (bi_path b)")
      case None
      have step: "evict_loop cur tgt (b # bs) tree ev = evict_loop cur tgt bs tree ev"
        using over None by simp
      from Cons.prems(5) None have b1: "b1 \<in> set bs" using Cons.prems(3) by auto
      have "map_of (fst (evict_loop cur tgt bs tree ev)) (bi_path b) = None"
        using evict_loop_only_removes [of cur tgt bs tree ev "bi_path b"] None by auto
      with Cons.prems(7) step have b2: "b2 \<in> set bs" using Cons.prems(4) by auto
      from Cons.IH [OF sorted dist b1 b2 Cons.prems(5)] Cons.prems(6,7) step
      show ?thesis by simp
    next
      case (Some f)
      let ?tree = "AList.delete (bi_path b) tree"
      let ?ev = "ev + bi_size b"
      have step: "evict_loop cur tgt (b # bs) tree ev = evict_loop cur tgt bs ?tree ?ev"
        using over Some by simp
      have "map_of (fst (evict_loop cur tgt bs ?tree ?ev)) (bi_path b) = None"
        using evict_loop_only_removes [of cur tgt bs ?tree ?ev "bi_path b"]
        by (auto simp: delete_conv')
      with Cons.prems(7) step have b2: "b2 \<in> set bs" using Cons.prems(4) by auto
      show ?thesis
      proof (cases "b1 = b")
        case True
        with least b2 show ?thesis by simp
      next
        case False
        with Cons.prems(3) have b1: "b1 \<in> set bs" by simp
        with other Cons.prems(5) have "map_of ?tree (bi_path b1) \<noteq> None"
          by (simp add: delete_conv')
        from Cons.IH [OF sorted dist b1 b2 this] Cons.prems(6,7) step
        show ?thesis by simp
      qed
    qed
  qed
qed

lemma evict_lru_blocks_oldest_first:
  assumes "distinct (map fst (blocks_dir ctx))"
      and "map_of (blocks_dir ctx) k1 = Some f1"
      and "map_of (blocks_dir (snd (evict_lru_blocks ctx tgt))) k1 = None"
      and "map_of (blocks_dir (snd (evict_lru_blocks ctx tgt))) k2 = Some f2"
  shows "bf_atime f1 \<le> bf_atime f2"
proof -
  let ?tree = "blocks_dir ctx"
  let ?bs = "sort_key bi_atime (collect_blocks ?tree)"
  let ?r = "evict_loop (current_cache_size ctx) tgt ?bs ?tree 0"
  have res: "blocks_dir (snd (evict_lru_blocks ctx tgt)) = fst ?r"
    using assms(2,3)
    by (auto simp: evict_lru_blocks_def Let_def case_prod_unfold collect_blocks_def)
  from assms(4) res have k2: "map_of ?tree k2 = Some f2"
    using evict_loop_only_removes [of "current_cache_size ctx" tgt ?bs ?tree 0 k2] by auto
  let ?b1 = "\<lparr>bi_path = k1, bi_atime = bf_atime f1, bi_size = st_size_of f1\<rparr>"
  let ?b2 = "\<lparr>bi_path = k2, bi_atime = bf_atime f2, bi_size = st_size_of f2\<rparr>"
  have b1: "?b1 \<in> set ?bs"
    using map_of_SomeD [OF assms(2)] by (force simp: collect_blocks_def)
  have b2: "?b2 \<in> set ?bs"
    using map_of_SomeD [OF k2] by (force simp: collect_blocks_def)
  have paths: "map bi_path (collect_blocks ?tree) = map fst ?tree"
    by (simp add: collect_blocks_def case_prod_unfold comp_def)
  have dist: "distinct (map bi_path ?bs)"
    using assms(1) paths by (metis distinct_map distinct_sort set_sort)
  have "bi_atime ?b1 \<le> bi_atime ?b2"
    using evict_loop_oldest_first
      [OF sorted_sort_key dist b1 b2, of ?tree "current_cache_size ctx" tgt 0]
      assms(2,3,4) res
    by simp
  then show ?thesis by simp
qed

subsection \<open>Which blocks a range invalidation removes\<close>

lemma invalidate_block_blocks:
  "map_of (blocks_dir (invalidate_block ctx path j)) k =
     (if k = get_block_path path j then None else map_of (blocks_dir ctx) k)"
  by (auto simp: invalidate_block_def Let_def delete_conv' split: option.splits)

lemma invalidate_block_accounted:
  "accounted ctx \<Longrightarrow> accounted (invalidate_block ctx path j)"
  by (auto simp: invalidate_block_def Let_def accounted_def distinct_delete
      calculate_cache_size_delete split: option.splits)

lemma invalidate_blocks_blocks:
  "map_of (blocks_dir (invalidate_blocks ctx path js)) k =
     (if k \<in> get_block_path path ` set js then None else map_of (blocks_dir ctx) k)"
  unfolding invalidate_blocks_def
  by (induction js arbitrary: ctx) (auto simp: invalidate_block_blocks)

lemma invalidate_blocks_accounted:
  "accounted ctx \<Longrightarrow> accounted (invalidate_blocks ctx path js)"
  unfolding invalidate_blocks_def
  by (induction js arbitrary: ctx) (auto simp: invalidate_block_accounted)

text \<open>
  The loop of \<open>cache_block_invalidate_range\<close> returns unless \<open>end_block\<close> is the
  largest word, and runs one iteration for each index from \<open>start_block\<close> to
  \<open>end_block\<close>.
\<close>

lemma invalidate_range_loop_terminates:
  assumes "e \<noteq> - 1"
  shows "unat e + 1 - unat i = n \<Longrightarrow>
         invalidate_range_loop ctx path i e =
           Some (invalidate_blocks ctx path (map of_nat [unat i ..< unat e + 1]))"
proof (induction n arbitrary: i ctx)
  case 0
  then have "\<not> i \<le> e" by (simp add: word_le_nat_alt)
  moreover from 0 have "[unat i ..< unat e + 1] = []" by simp
  ultimately show ?case
    by (subst invalidate_range_loop.simps) (simp add: invalidate_blocks_def)
next
  case (Suc n)
  then have le: "i \<le> e" by (simp add: word_le_nat_alt)
  have "unat e \<noteq> unat (- 1 :: 64 word)"
    using assms by (simp add: word_unat_eq_iff)
  then have "unat e \<noteq> 2 ^ 64 - 1"
    by (simp add: unsigned_minus_1_eq_mask mask_eq_exp_minus_1)
  moreover have "unat e < 2 ^ 64"
    using unsigned_less [of e, where 'a = nat] by simp
  ultimately have "unat e < 2 ^ 64 - 1" by simp
  with le have "unat i < 2 ^ 64 - 1" by (simp add: word_le_nat_alt)
  then have suc: "unat (i + 1) = unat i + 1"
    by (simp add: unat_word_ariths)
  with Suc.prems have "unat e + 1 - unat (i + 1) = n" by simp
  from Suc.IH [OF this, of "invalidate_block ctx path i"]
  have "invalidate_range_loop (invalidate_block ctx path i) path (i + 1) e =
        Some (invalidate_blocks (invalidate_block ctx path i) path
                (map of_nat [unat i + 1 ..< unat e + 1]))"
    by (simp add: suc)
  moreover have "[unat i ..< unat e + 1] = unat i # [unat i + 1 ..< unat e + 1]"
    using le by (simp add: word_le_nat_alt upt_conv_Cons)
  ultimately show ?case
    using le by (subst invalidate_range_loop.simps) (simp add: invalidate_blocks_def)
qed


lemma get_block_path_eq_iff:
  "get_block_path p b = get_block_path path j \<longleftrightarrow> hash_path p = hash_path path \<and> b = j"
  by (auto simp: get_block_path_def Let_def)

lemma word_interval_image:
  fixes s e :: "64 word"
  shows "j \<in> of_nat ` set [unat s ..< unat e + 1] \<longleftrightarrow> s \<le> j \<and> j \<le> e"
proof
  assume "j \<in> of_nat ` set [unat s ..< unat e + 1]"
  then obtain n where n: "unat s \<le> n" "n \<le> unat e" and j: "j = of_nat n" by auto
  have "n < 2 ^ 64"
    using n(2) unsigned_less [of e, where 'a = nat] by simp
  then have "unat j = n"
    by (simp add: j unat_of_nat)
  with n show "s \<le> j \<and> j \<le> e" by (simp add: word_le_nat_alt)
next
  assume "s \<le> j \<and> j \<le> e"
  then have "unat j \<in> set [unat s ..< unat e + 1]" by (auto simp: word_le_nat_alt)
  then have "of_nat (unat j) \<in> (of_nat ` set [unat s ..< unat e + 1] :: 64 word set)"
    by (rule imageI)
  then show "j \<in> of_nat ` set [unat s ..< unat e + 1]" by simp
qed

lemma cache_block_invalidate_range_result:
  assumes "block_size ctx \<noteq> 0" and "(offset + sz) div block_size ctx \<noteq> - 1"
  shows "\<exists>ctx'. cache_block_invalidate_range ctx path offset sz = Some (0, ctx') \<and>
           (accounted ctx \<longrightarrow> accounted ctx') \<and>
           (\<forall>p b. cache_block_exists ctx' p b \<longleftrightarrow>
              cache_block_exists ctx p b \<and>
              \<not> (hash_path p = hash_path path \<and> offset div block_size ctx \<le> b \<and>
                 b \<le> (offset + sz) div block_size ctx))"
proof -
  let ?s = "offset div block_size ctx"
  let ?e = "(offset + sz) div block_size ctx"
  let ?js = "map of_nat [unat ?s ..< unat ?e + 1] :: 64 word list"
  let ?ctx' = "invalidate_blocks ctx path ?js"
  have loop: "invalidate_range_loop ctx path ?s ?e = Some ?ctx'"
    using invalidate_range_loop_terminates [OF assms(2), of ?s _ ctx path] by simp
  have "cache_block_exists ?ctx' p b \<longleftrightarrow>
          cache_block_exists ctx p b \<and> \<not> (hash_path p = hash_path path \<and> ?s \<le> b \<and> b \<le> ?e)"
    for p b
  proof -
    have "get_block_path p b \<in> get_block_path path ` set ?js \<longleftrightarrow>
          hash_path p = hash_path path \<and> b \<in> set ?js"
      by (simp only: image_iff get_block_path_eq_iff) blast
    also have "\<dots> \<longleftrightarrow> hash_path p = hash_path path \<and> ?s \<le> b \<and> b \<le> ?e"
      using word_interval_image [of b ?s ?e] by (simp only: set_map)
    finally have "get_block_path p b \<in> get_block_path path ` set ?js \<longleftrightarrow>
          hash_path p = hash_path path \<and> ?s \<le> b \<and> b \<le> ?e" .
    then show ?thesis
      by (simp only: cache_block_exists_def invalidate_blocks_blocks) auto
  qed
  with loop assms(1) show ?thesis
    by (simp add: cache_block_invalidate_range_def Let_def invalidate_blocks_accounted)
qed

lemma intersecting_block_in_loop_range:
  fixes offset sz bs b :: "64 word"
  assumes "bs \<noteq> 0" and "unat offset + unat sz < 2 ^ 64"
      and "unat b * unat bs < unat offset + unat sz"
      and "unat offset < (unat b + 1) * unat bs"
  shows "offset div bs \<le> b \<and> b \<le> (offset + sz) div bs"
proof -
  from assms(1) have pos: "0 < unat bs" by (simp add: unat_gt_0)
  from assms(2) have sum: "unat (offset + sz) = unat offset + unat sz"
    by (simp add: unat_word_ariths)
  from assms(4) have "unat offset div unat bs < unat b + 1"
    by (rule less_mult_imp_div_less)
  moreover from assms(3) pos have "unat b \<le> (unat offset + unat sz) div unat bs"
    by (simp add: less_eq_div_iff_mult_less_eq)
  ultimately show ?thesis
    by (simp add: word_le_nat_alt unat_div sum)
qed

lemma cache_block_invalidate_range_intersecting:
  assumes "block_size ctx \<noteq> 0" and "unat offset + unat sz < 2 ^ 64 - 1"
      and "unat b * unat (block_size ctx) < unat offset + unat sz"
      and "unat offset < (unat b + 1) * unat (block_size ctx)"
  shows "\<exists>ctx'. cache_block_invalidate_range ctx path offset sz = Some (0, ctx') \<and>
           \<not> cache_block_exists ctx' path b"
proof -
  from assms(2) have sum: "unat (offset + sz) = unat offset + unat sz"
    by (simp add: unat_word_ariths)
  have "unat ((offset + sz) div block_size ctx) \<le> unat (offset + sz)"
    by (simp add: unat_div)
  with sum assms(2) have "unat ((offset + sz) div block_size ctx) \<noteq> 2 ^ 64 - 1" by simp
  then have e: "(offset + sz) div block_size ctx \<noteq> - 1"
    by (auto simp: unsigned_minus_1_eq_mask mask_eq_exp_minus_1)
  from assms(2) have "unat offset + unat sz < 2 ^ 64" by simp
  from intersecting_block_in_loop_range [OF assms(1) this assms(3,4)]
       cache_block_invalidate_range_result [OF assms(1) e, of path]
  show ?thesis by auto
qed

lemma invalidate_file_loop_accounted:
  "accounted ctx \<Longrightarrow> accounted (invalidate_file_loop path des ctx)"
proof (induction des arbitrary: ctx)
  case Nil
  then show ?case by simp
next
  case (Cons d des)
  obtain p f where d: "d = (p, f)" by (cases d)
  show ?case
  proof (cases "map_of (blocks_dir ctx) p")
    case None
    with Cons show ?thesis by (simp add: d)
  next
    case (Some st)
    let ?ctx' = "ctx\<lparr>blocks_dir := AList.delete p (blocks_dir ctx),
                     current_cache_size := current_cache_size ctx - st_size_of st\<rparr>"
    from Cons.prems Some have "accounted ?ctx'"
      by (simp add: accounted_def distinct_delete calculate_cache_size_delete)
    with Cons Some show ?thesis by (simp add: d)
  qed
qed

lemma cache_block_invalidate_file_accounted:
  "accounted ctx \<Longrightarrow> accounted (snd (cache_block_invalidate_file ctx path))"
  by (simp add: cache_block_invalidate_file_def invalidate_file_loop_accounted)

lemma cache_block_init_accounted:
  "distinct (map fst tree) \<Longrightarrow> accounted (cache_block_init tree bsize max_size)"
  by (simp add: accounted_def cache_block_init_def)

lemma calculate_cache_size_update_present:
  assumes "map_of tree k = Some f" and "st_size_of g = st_size_of f"
  shows "calculate_cache_size (AList.update k g tree) = calculate_cache_size tree"
  using assms
proof (induction tree)
  case Nil
  then show ?case by simp
next
  case (Cons x xs)
  obtain p h where x: "x = (p, h)" by (cases x)
  with Cons show ?case by (auto split: if_splits)
qed

lemma cache_block_read_accounted:
  "accounted ctx \<Longrightarrow> accounted (snd (cache_block_read ctx p i sz off now io upd))"
  by (auto simp: cache_block_read_def Let_def accounted_def distinct_update
      calculate_cache_size_update_present st_size_of_def split: option.splits)

subsection \<open>The claims on invalidation, the counter and eviction\<close>

text \<open>The loop of \<open>cache_block_invalidate_range\<close> from block 0 to block 1: two iterations.\<close>

lemma invalidate_range_loop_0_1:
  "invalidate_range_loop ctx path 0 1 =
     Some (invalidate_block (invalidate_block ctx path 0) path 1)"
proof -
  have "invalidate_range_loop ctx path 0 1 =
        invalidate_range_loop (invalidate_block ctx path 0) path 1 1"
    by (subst invalidate_range_loop.simps) simp
  also have "\<dots> =
        invalidate_range_loop (invalidate_block (invalidate_block ctx path 0) path 1) path 2 1"
    by (subst invalidate_range_loop.simps) simp
  also have "\<dots> = Some (invalidate_block (invalidate_block ctx path 0) path 1)"
    by (subst invalidate_range_loop.simps) (simp add: word_le_nat_alt)
  finally show ?thesis .
qed

text \<open>
  Claim C4 at a failing input. With blocks of 4 bytes and blocks 0 and 1 of \<open>/f\<close>
  cached, invalidating the 4 bytes from offset 0 touches the byte range \<open>[0, 4)\<close>,
  which is block 0 alone: block 1 holds \<open>[4, 8)\<close>. The loop runs to
  \<open>(offset + size) / block_size = 1\<close> inclusive and removes block 1 as well: the store
  is left empty.
\<close>

theorem invalidate_range_removes_block_after_range:
  "cache_block_exists two_blocks ''/f'' 0 \<and>
   cache_block_exists two_blocks ''/f'' 1 \<and>
   cache_block_invalidate_range two_blocks ''/f'' 0 4 = Some (0, cache_block_init [] 4 0) \<and>
   \<not> cache_block_exists (cache_block_init [] 4 0) ''/f'' 1"
  by (simp add: two_blocks_def cache_block_invalidate_range_def invalidate_range_loop_0_1
      block_store_defs Let_def)

text \<open>
  Claim C6 at a failing input. After one write of block 0 of \<open>/f\<close> the store is
  accounted. Writing the block again, 2 bytes each time, leaves one file of 2 bytes in
  the store, and the counter that \<open>cache_block_get_stats\<close> returns at 4:
  \<open>cache_block_write\<close> adds the bytes written and does not take off the size of the file
  it replaced.
\<close>

theorem overwrite_counts_twice:
  "accounted written_once \<and>
   cache_block_exists written_once ''/f'' 0 \<and>
   fst (cache_block_write written_once ''/f'' 0 [3, 4] 101 IO_OK) = 0 \<and>
   fst (cache_block_get_stats written_twice) = 4 \<and>
   calculate_cache_size (blocks_dir written_twice) = 2"
  by (simp add: accounted_def written_twice_def written_once_def block_store_defs Let_def)

text \<open>
  Claim C5 at a failing input. The store holds one block of 20 bytes and is opened
  with a limit of 10 bytes, so its counter starts at 20, the bytes present. Writing 1
  byte over that block raises the counter to 21 and starts the eviction pass with
  target 9; the pass unlinks the only file, now 1 byte long, and takes 1 off the
  counter. The write returns 0 with the store empty and the counter at 20, above the
  limit of 10.
\<close>

theorem write_leaves_counter_above_limit:
  "accounted second_mount \<and>
   cache_block_get_stats second_mount = (20, 10) \<and>
   fst (cache_block_write second_mount ''/f'' 0 [7] 100 IO_OK) = 0 \<and>
   cache_block_get_stats (snd (cache_block_write second_mount ''/f'' 0 [7] 100 IO_OK)) = (20, 10) \<and>
   blocks_dir (snd (cache_block_write second_mount ''/f'' 0 [7] 100 IO_OK)) = []"
  by (simp add: accounted_def second_mount_def first_mount_def block_store_defs Let_def)

section \<open>Properties of the metadata store\<close>

lemma map_of_sql_insert_or_replace:
  "map_of (sql_insert_or_replace k v t) k' = (if k' = k then Some v else map_of t k')"
  by (auto simp: sql_insert_or_replace_def delete_conv' map_add_def split: option.split)

lemmas sqlite_conv_defs =
  sqlite3_bind_int_def sqlite3_bind_int64_ino_def sqlite3_column_int_def
  sqlite3_column_int64_ino_def

lemmas meta_store_defs =
  cache_meta_init_def cache_meta_lookup_def cache_meta_store_def cache_meta_store_negative_def
  cache_meta_invalidate_def cache_dir_lookup_def cache_dir_store_def select_dir_def
  sql_insert_or_replace_def sqlite_conv_defs CACHE_ENTRY_FILE_def CACHE_ENTRY_DIR_def
  CACHE_ENTRY_NEG_def

lemmas lmdb_store_defs =
  cache_meta_lookup_lmdb_def cache_meta_store_lmdb_def cache_meta_store_negative_lmdb_def
  mdb_put_commit_def

text \<open>
  What \<open>cache_meta_lookup\<close> returns after \<open>cache_meta_store\<close>, in the SQLite store and
  in the LMDB store: every field of the stat buffer comes back; the SQLite store files
  every path as \<open>CACHE_ENTRY_FILE\<close>, the LMDB store tells directories apart.
\<close>

lemma cache_meta_store_lookup:
  "cache_meta_lookup (snd (cache_meta_store ctx path stbuf now SQLITE_DONE)) path t =
     Some (\<lparr>e_type = CACHE_ENTRY_FILE, e_size = st_size stbuf, e_mtime = st_mtime stbuf,
            e_ctime = st_ctime stbuf, e_mode = st_mode stbuf, e_uid = st_uid stbuf,
            e_gid = st_gid stbuf, e_ino = st_ino stbuf, e_cached_at = now,
            e_valid_until = now + meta_ttl ctx\<rparr>, t < now + meta_ttl ctx)"
  by (simp add: cache_meta_store_def cache_meta_lookup_def Let_def map_of_sql_insert_or_replace
      sqlite_conv_defs)

lemma cache_meta_store_lookup_lmdb:
  "cache_meta_lookup_lmdb (snd (cache_meta_store_lmdb ctx path stbuf now MDB_SUCCESS))
       path entry0 t MDB_SUCCESS =
     Some (entry0\<lparr>e_type := (if S_ISDIR (st_mode stbuf) then CACHE_ENTRY_DIR
                               else CACHE_ENTRY_FILE),
            e_size := st_size stbuf, e_mtime := st_mtime stbuf,
            e_ctime := st_ctime stbuf, e_mode := st_mode stbuf, e_uid := st_uid stbuf,
            e_gid := st_gid stbuf, e_cached_at := now,
            e_valid_until := now + l_meta_ttl ctx\<rparr>, t < now + l_meta_ttl ctx)"
  by (simp add: lmdb_store_defs Let_def update_conv' CACHE_ENTRY_FILE_def CACHE_ENTRY_DIR_def)

text \<open>
  Claim C2, as the spec states it, fails. With the default attribute TTL of 5 s the
  SQLite store gives a negative entry 5 s to live (cached at 2000, valid until 2005),
  not 2 s; with an attribute TTL of 1 s the LMDB store gives it 2 s (valid until 2002),
  more than the attribute TTL.
\<close>

theorem negative_ttl_not_two_nor_bounded:
  "meta_ttl meta_empty = 5 \<and>
   cache_meta_lookup (snd (cache_meta_store_negative meta_empty ''/missing'' 2000 SQLITE_DONE))
       ''/missing'' 2001 =
     Some (\<lparr>e_type = CACHE_ENTRY_NEG, e_size = 0, e_mtime = 0, e_ctime = 0, e_mode = 0,
            e_uid = 0, e_gid = 0, e_ino = 0, e_cached_at = 2000, e_valid_until = 2005\<rparr>, True) \<and>
   l_meta_ttl lmdb_short_ttl = 1 \<and>
   cache_meta_lookup_lmdb
       (snd (cache_meta_store_negative_lmdb lmdb_short_ttl ''/missing'' 2000 MDB_SUCCESS))
       ''/missing'' entry_blank 2001 MDB_SUCCESS =
     Some (\<lparr>e_type = CACHE_ENTRY_NEG, e_size = 0, e_mtime = 0, e_ctime = 0, e_mode = 0,
            e_uid = 0, e_gid = 0, e_ino = 0, e_cached_at = 2000, e_valid_until = 2002\<rparr>, True)"
  by (simp add: meta_empty_def lmdb_short_ttl_def entry_blank_def meta_store_defs
      lmdb_store_defs Let_def update_conv')

text \<open>
  Claim C2, amended: for every path, \<open>cache_meta_store_negative\<close> stores a record of
  kind NEGATIVE with all attributes zero and \<open>cached_at = now\<close>. There is no negative
  TTL of its own: in the SQLite store \<open>valid_until - cached_at\<close> is the attribute TTL
  \<open>meta_ttl\<close> of the store, in the LMDB store it is the constant 2, whatever the
  attribute TTL is.
\<close>

theorem cache_meta_store_negative_record:
  "fst (cache_meta_store_negative ctx path now SQLITE_DONE) = 0 \<and>
   cache_meta_lookup (snd (cache_meta_store_negative ctx path now SQLITE_DONE)) path t =
     Some (\<lparr>e_type = CACHE_ENTRY_NEG, e_size = 0, e_mtime = 0, e_ctime = 0, e_mode = 0,
            e_uid = 0, e_gid = 0, e_ino = 0, e_cached_at = now,
            e_valid_until = now + meta_ttl ctx\<rparr>,
           t < now + meta_ttl ctx) \<and>
   map_option (\<lambda>(e, v). e_valid_until e - e_cached_at e)
     (cache_meta_lookup (snd (cache_meta_store_negative ctx path now SQLITE_DONE)) path t) =
     Some (meta_ttl ctx) \<and>
   fst (cache_meta_store_negative_lmdb lctx path now MDB_SUCCESS) = 0 \<and>
   cache_meta_lookup_lmdb (snd (cache_meta_store_negative_lmdb lctx path now MDB_SUCCESS))
       path entry0 t MDB_SUCCESS =
     Some (entry0\<lparr>e_type := CACHE_ENTRY_NEG, e_size := 0, e_mtime := 0, e_ctime := 0,
                  e_mode := 0, e_uid := 0, e_gid := 0, e_cached_at := now,
                  e_valid_until := now + 2\<rparr>,
           t < now + 2) \<and>
   map_option (\<lambda>(e, v). e_valid_until e - e_cached_at e)
     (cache_meta_lookup_lmdb (snd (cache_meta_store_negative_lmdb lctx path now MDB_SUCCESS))
        path entry0 t MDB_SUCCESS) =
     Some 2"
  by (simp add: cache_meta_store_negative_def cache_meta_lookup_def Let_def
      map_of_sql_insert_or_replace sqlite_conv_defs lmdb_store_defs update_conv'
      CACHE_ENTRY_NEG_def)

text \<open>
  Claim C3, as the spec states it, fails: the SQLite store keeps the inode number.
  After \<open>cache_meta_store\<close> of a file whose \<open>st_ino\<close> is 42, the row of the path holds 42
  in its \<open>ino\<close> column and \<open>cache_meta_lookup\<close> returns 42 in the entry's \<open>ino\<close> field.
\<close>

theorem inode_is_stored_and_returned:
  "st_ino stat_file = 42 \<and>
   fst (cache_meta_store meta_empty ''/f'' stat_file 2000 SQLITE_DONE) = 0 \<and>
   map_option c_ino (map_of (metadata meta_of_f) ''/f'') = Some 42 \<and>
   cache_meta_lookup meta_of_f ''/f'' 2001 =
     Some (\<lparr>e_type = CACHE_ENTRY_FILE, e_size = 11, e_mtime = 1000, e_ctime = 1000,
            e_mode = 0x81A4, e_uid = 501, e_gid = 20, e_ino = 42, e_cached_at = 2000,
            e_valid_until = 2005\<rparr>, True)"
  by (simp add: meta_of_f_def meta_empty_def stat_file_def meta_store_defs Let_def)

text \<open>
  Claim C3, amended: the SQLite metadata store persists the inode number. For every
  path and stat buffer, the row written by \<open>cache_meta_store\<close> holds \<open>st_ino\<close> in its
  \<open>ino\<close> column, and a following \<open>cache_meta_lookup\<close> yields that stored value as the
  entry's \<open>ino\<close>. (The LMDB variant has no inode in its record: its lookup leaves the
  \<open>ino\<close> field of the caller's entry as it was.)
\<close>

theorem cache_meta_store_persists_ino:
  "fst (cache_meta_store ctx path stbuf now SQLITE_DONE) = 0 \<and>
   map_option c_ino
     (map_of (metadata (snd (cache_meta_store ctx path stbuf now SQLITE_DONE))) path) =
     Some (sint (st_ino stbuf)) \<and>
   map_option (\<lambda>(e, v). e_ino e)
     (cache_meta_lookup (snd (cache_meta_store ctx path stbuf now SQLITE_DONE)) path t) =
     Some (st_ino stbuf) \<and>
   map_option (\<lambda>(e, v). e_ino e)
     (cache_meta_lookup_lmdb (snd (cache_meta_store_lmdb lctx path stbuf now MDB_SUCCESS))
        path entry0 t MDB_SUCCESS) =
     Some (e_ino entry0)"
  by (simp add: cache_meta_store_lookup cache_meta_store_lookup_lmdb)
     (simp add: cache_meta_store_def Let_def map_of_sql_insert_or_replace sqlite_conv_defs)

text \<open>
  Claim C9 at a failing input. The stat buffer describes a directory
  (\<open>S_IFDIR | 0755\<close>); \<open>cache_meta_store\<close> of the SQLite store binds the constant
  \<open>CACHE_ENTRY_FILE\<close> as the type of every record, so the lookup returns kind FILE for
  it. Size, times, mode, owner and group do come back as stored.
\<close>

theorem directory_is_stored_as_file:
  "S_ISDIR (st_mode stat_dir) \<and>
   fst (cache_meta_store meta_empty ''/d'' stat_dir 2000 SQLITE_DONE) = 0 \<and>
   cache_meta_lookup (snd (cache_meta_store meta_empty ''/d'' stat_dir 2000 SQLITE_DONE))
       ''/d'' 2001 =
     Some (\<lparr>e_type = CACHE_ENTRY_FILE, e_size = 4096, e_mtime = 1000, e_ctime = 1000,
            e_mode = 0x41ED, e_uid = 501, e_gid = 20, e_ino = 7, e_cached_at = 2000,
            e_valid_until = 2005\<rparr>, True) \<and>
   CACHE_ENTRY_FILE \<noteq> CACHE_ENTRY_DIR"
  by (simp add: meta_empty_def stat_dir_def S_ISDIR_def meta_store_defs Let_def)

section \<open>Properties of the directory listings\<close>

text \<open>
  When every insert succeeds, the names are distinct and the table holds no row of
  the directory, the loop appends one row per entry.
\<close>

lemma dir_insert_loop_Some:
  assumes "dir_insert_loop path es m now vu rc i t = Some t'"
      and "distinct (map d_name es)"
      and "\<forall>e \<in> set es. (path, d_name e) \<notin> fst ` set t"
  shows "t' = t @ map (dir_row_of path m now vu) es"
  using assms
proof (induction es arbitrary: t i)
  case Nil
  then show ?case by simp
next
  case (Cons e es)
  let ?t1 = "t @ [dir_row_of path m now vu e]"
  from Cons.prems(1) have rc_i: "rc i = SQLITE_DONE"
    by (simp split: if_splits)
  have t1: "sql_insert_or_replace (path, d_name e)
                \<lparr>c_entry_type = sqlite3_bind_int (d_type e), c_dir_mtime = m,
                 c_dir_cached_at = now, c_dir_valid_until = vu\<rparr> t = ?t1"
    using Cons.prems(3) by (simp add: sql_insert_or_replace_def dir_row_of_def)
  from Cons.prems(1) rc_i t1
  have loop: "dir_insert_loop path es m now vu rc (Suc i) ?t1 = Some t'"
    by simp
  have fresh: "\<forall>e' \<in> set es. (path, d_name e') \<notin> fst ` set ?t1"
  proof
    fix e' assume e': "e' \<in> set es"
    then have "d_name e' \<in> set (map d_name es)" by simp
    moreover from Cons.prems(2) have "d_name e \<notin> set (map d_name es)" by simp
    ultimately have "d_name e' \<noteq> d_name e" by metis
    moreover from e' Cons.prems(3) have "(path, d_name e') \<notin> fst ` set t" by simp
    ultimately show "(path, d_name e') \<notin> fst ` set ?t1"
      by (simp add: dir_row_of_def)
  qed
  from Cons.prems(2) have "distinct (map d_name es)" by simp
  from Cons.IH [OF loop this fresh] show ?case by simp
qed

lemma insort_key_map:
  "insort_key f (g x) (map g xs) = map g (insort_key (\<lambda>y. f (g y)) x xs)"
  by (induction xs) auto

lemma sort_key_map:
  "sort_key f (map g xs) = map g (sort_key (\<lambda>y. f (g y)) xs)"
  by (induction xs) (auto simp: insort_key_map)

lemma select_dir_fresh:
  assumes "\<forall>kr \<in> set t. fst (fst kr) \<noteq> path"
  shows "select_dir (t @ map (dir_row_of path m now vu) es) path =
         map (dir_row_of path m now vu) (sort_key d_name es)"
proof -
  have "filter (\<lambda>(k, r). fst k = path) t = []"
    using assms by (auto simp: filter_empty_conv)
  moreover have "filter (\<lambda>(k, r). fst k = path) (map (dir_row_of path m now vu) es) =
                 map (dir_row_of path m now vu) es"
    by (induction es) (auto simp: dir_row_of_def)
  ultimately show ?thesis
    by (simp add: select_dir_def sort_key_map dir_row_of_def case_prod_unfold)
qed

lemma entry_of_dir_row:
  "map ((\<lambda>(k, r). \<lparr>d_name = snd k, d_type = sqlite3_column_int (c_entry_type r)\<rparr>) \<circ>
        dir_row_of path m now vu) es = es"
  by (induction es) (auto simp: dir_row_of_def sqlite_conv_defs)

lemma cache_dir_lookup_fresh:
  assumes "\<forall>kr \<in> set t. fst (fst kr) \<noteq> path" and "es \<noteq> []"
  shows "cache_dir_lookup (ctx\<lparr>dir_entries := t @ map (dir_row_of path m now vu) es\<rparr>) path t' =
         Some (sort_key d_name es, length es, m, t' < vu)"
proof -
  let ?rows = "map (dir_row_of path m now vu) (sort_key d_name es)"
  have ne: "sort_key d_name es \<noteq> []"
    using assms(2) by (metis length_0_conv length_sort)
  then have hd_row: "hd ?rows = dir_row_of path m now vu (hd (sort_key d_name es))"
    by (simp add: hd_map)
  show ?thesis
    using ne
    by (simp add: cache_dir_lookup_def Let_def select_dir_fresh [OF assms(1)] entry_of_dir_row
        hd_row) (simp add: dir_row_of_def)
qed

text \<open>
  Claim C7, as the spec states it, fails for a listing with no entries:
  \<open>cache_dir_store\<close> of an empty array returns 0 after deleting the old rows, and the
  following \<open>cache_dir_lookup\<close> returns -1 (a miss), not the stored listing.
\<close>

theorem empty_listing_stored_then_missed:
  "cache_dir_lookup listed_dir ''/d'' 95 =
     Some ([\<lparr>d_name = ''old'', d_type = CACHE_ENTRY_FILE\<rparr>], 1, 6, True) \<and>
   fst (cache_dir_store listed_dir ''/d'' (Some []) 7 96 all_done) = 0 \<and>
   cache_dir_lookup (snd (cache_dir_store listed_dir ''/d'' (Some []) 7 96 all_done)) ''/d'' 97 =
     None"
  by (simp add: listed_dir_def meta_empty_def all_done_def meta_store_defs Let_def)

text \<open>
  Claim C7, amended: \<open>cache_dir_store\<close> returns 0 or -1. If it returns 0 for an array
  that is not empty and whose names are distinct, a following \<open>cache_dir_lookup\<close> of the
  directory returns exactly the stored (name, kind) pairs, in the order of their names,
  with their count and the stored \<open>dir_mtime\<close>, valid until \<open>now + dir_ttl\<close>; if it
  returns 0 for an empty array, the lookup misses. If it returns -1 (a null array, or an
  insert that failed and was rolled back), the store is what it was before the call, so
  every listing is still returned unchanged.
\<close>

theorem cache_dir_store_replaces_or_keeps:
  assumes "cache_dir_store ctx path entries dir_mtime now rc = (r, ctx')"
  shows "(r = 0 \<or> r = -1) \<and>
         (r = 0 \<longrightarrow>
            (\<exists>es. entries = Some es \<and>
               (es = [] \<longrightarrow> cache_dir_lookup ctx' path t = None) \<and>
               (es \<noteq> [] \<and> distinct (map d_name es) \<longrightarrow>
                  cache_dir_lookup ctx' path t =
                    Some (sort_key d_name es, length es, dir_mtime, t < now + dir_ttl ctx)))) \<and>
         (r = -1 \<longrightarrow> ctx' = ctx)"
proof (cases entries)
  case None
  with assms show ?thesis by (simp add: cache_dir_store_def)
next
  case (Some es)
  let ?deleted = "filter (\<lambda>(k, r). fst k \<noteq> path) (dir_entries ctx)"
  let ?vu = "now + dir_ttl ctx"
  have deleted: "\<forall>kr \<in> set ?deleted. fst (fst kr) \<noteq> path"
    by auto
  show ?thesis
  proof (cases "dir_insert_loop path es dir_mtime now ?vu rc 0 ?deleted")
    case None
    with assms Some show ?thesis by (simp add: cache_dir_store_def Let_def)
  next
    case (Some t')
    with assms \<open>entries = Some es\<close>
    have r: "r = 0" and ctx': "ctx' = ctx\<lparr>dir_entries := t'\<rparr>"
      by (simp_all add: cache_dir_store_def Let_def)
    have empty: "cache_dir_lookup ctx' path t = None" if "es = []"
    proof -
      from that Some have "t' = ?deleted" by simp
      moreover have "filter (\<lambda>(k, r). fst k = path) ?deleted = []"
        by (auto simp: filter_empty_conv)
      ultimately show ?thesis
        by (simp add: ctx' cache_dir_lookup_def select_dir_def Let_def)
    qed
    have full: "cache_dir_lookup ctx' path t =
                  Some (sort_key d_name es, length es, dir_mtime, t < ?vu)"
      if "es \<noteq> []" and "distinct (map d_name es)"
    proof -
      have "\<forall>e \<in> set es. (path, d_name e) \<notin> fst ` set ?deleted"
        by auto
      from dir_insert_loop_Some [OF Some that(2) this]
      have "t' = ?deleted @ map (dir_row_of path dir_mtime now ?vu) es" .
      then show ?thesis
        using cache_dir_lookup_fresh
          [OF deleted that(1), where ctx = ctx and m = dir_mtime and now = now and vu = ?vu
             and t' = t]
        by (simp add: ctx')
    qed
    from r \<open>entries = Some es\<close> empty full show ?thesis by simp
  qed
qed

text \<open>
  The amended claim at a concrete store. Over the cached listing \<open>[old]\<close>, storing
  \<open>[y, x]\<close> succeeds and the lookup returns \<open>[x, y]\<close> with the new \<open>dir_mtime\<close> 7; when
  the second insert fails, the call returns -1 and the lookup still returns \<open>[old]\<close>
  with \<open>dir_mtime\<close> 6.
\<close>

theorem cache_dir_store_replaces_or_keeps_witness:
  "cache_dir_store listed_dir ''/d'' (Some new_listing) 7 96 all_done =
     (0, snd (cache_dir_store listed_dir ''/d'' (Some new_listing) 7 96 all_done)) \<and>
   new_listing \<noteq> [] \<and> distinct (map d_name new_listing) \<and>
   cache_dir_lookup (snd (cache_dir_store listed_dir ''/d'' (Some new_listing) 7 96 all_done))
       ''/d'' 97 =
     Some ([\<lparr>d_name = ''x'', d_type = CACHE_ENTRY_DIR\<rparr>,
            \<lparr>d_name = ''y'', d_type = CACHE_ENTRY_FILE\<rparr>], 2, 7, True) \<and>
   cache_dir_store listed_dir ''/d'' (Some new_listing) 7 96 second_fails = (-1, listed_dir) \<and>
   cache_dir_lookup listed_dir ''/d'' 97 =
     Some ([\<lparr>d_name = ''old'', d_type = CACHE_ENTRY_FILE\<rparr>], 1, 6, True)"
  using cache_dir_store_replaces_or_keeps
    [of listed_dir "''/d''" "Some new_listing" 7 96 all_done 0
        "snd (cache_dir_store listed_dir ''/d'' (Some new_listing) 7 96 all_done)" 97]
    cache_dir_store_replaces_or_keeps
    [of listed_dir "''/d''" "Some new_listing" 7 96 second_fails "-1" listed_dir 97]
  by (simp add: listed_dir_def meta_empty_def all_done_def second_fails_def new_listing_def
      meta_store_defs Let_def)

text \<open>
  Claim C10: an empty directory listing is never served from the cache.
  \<open>cache_dir_lookup\<close> returns -1 for a directory with no rows in \<open>dir_entries\<close>, so every
  listing it does return has at least one entry; \<open>cache_dir_store\<close> returns -1 for a null
  entry array and leaves the store alone; and after \<open>cache_dir_store\<close> of an array with
  no entries (which returns 0) the lookup of the directory returns -1.
\<close>

theorem empty_listing_never_served:
  "(filter (\<lambda>(k, r). fst k = path) (dir_entries ctx) = [] \<longrightarrow>
      cache_dir_lookup ctx path now = None) \<and>
   cache_dir_store ctx path None dir_mtime now rc = (-1, ctx) \<and>
   fst (cache_dir_store ctx path (Some []) dir_mtime now rc) = 0 \<and>
   cache_dir_lookup (snd (cache_dir_store ctx path (Some []) dir_mtime now rc)) path t = None \<and>
   (\<forall>es n m v. cache_dir_lookup ctx path now = Some (es, n, m, v) \<longrightarrow>
      es \<noteq> [] \<and> n = length es)"
proof (intro conjI allI impI)
  assume "filter (\<lambda>(k, r). fst k = path) (dir_entries ctx) = []"
  then show "cache_dir_lookup ctx path now = None"
    by (simp add: cache_dir_lookup_def select_dir_def Let_def)
next
  show "cache_dir_store ctx path None dir_mtime now rc = (-1, ctx)"
    by (simp add: cache_dir_store_def)
next
  show "fst (cache_dir_store ctx path (Some []) dir_mtime now rc) = 0"
    by (simp add: cache_dir_store_def Let_def)
next
  have "filter (\<lambda>(k, r). fst k = path)
          (filter (\<lambda>(k, r). fst k \<noteq> path) (dir_entries ctx)) = []"
    by (auto simp: filter_empty_conv)
  then show
    "cache_dir_lookup (snd (cache_dir_store ctx path (Some []) dir_mtime now rc)) path t = None"
    by (simp add: cache_dir_store_def cache_dir_lookup_def select_dir_def Let_def)
next
  fix es n m v
  assume "cache_dir_lookup ctx path now = Some (es, n, m, v)"
  then show "es \<noteq> []"
    by (auto simp: cache_dir_lookup_def Let_def split: if_splits)
next
  fix es n m v
  assume "cache_dir_lookup ctx path now = Some (es, n, m, v)"
  then show "n = length es"
    by (auto simp: cache_dir_lookup_def Let_def split: if_splits)
qed

text \<open>
  Claim C10 at concrete stores: the empty store has no row of \<open>/d\<close> and the lookup
  misses; the store with \<open>[old]\<close> cached rejects a null array, serves a listing of one
  entry, and misses after an empty array was stored.
\<close>

theorem empty_listing_never_served_witness:
  "filter (\<lambda>(k, r). fst k = ''/d'') (dir_entries meta_empty) = [] \<and>
   cache_dir_lookup meta_empty ''/d'' 95 = None \<and>
   cache_dir_store listed_dir ''/d'' None 7 96 all_done = (-1, listed_dir) \<and>
   cache_dir_lookup (snd (cache_dir_store listed_dir ''/d'' (Some []) 7 96 all_done)) ''/d'' 97 =
     None \<and>
   cache_dir_lookup listed_dir ''/d'' 95 =
     Some ([\<lparr>d_name = ''old'', d_type = CACHE_ENTRY_FILE\<rparr>], 1, 6, True) \<and>
   [\<lparr>d_name = ''old'', d_type = CACHE_ENTRY_FILE\<rparr>] \<noteq> []"
  using empty_listing_never_served [of "''/d''" meta_empty 95 7 all_done 97]
        empty_listing_never_served [of "''/d''" listed_dir 95 7 all_done 97]
  by (simp add: listed_dir_def meta_empty_def all_done_def meta_store_defs Let_def)

section \<open>Properties of the coherency check\<close>

text \<open>
  \<open>cache_block_invalidate_file\<close> leaves exactly the files outside the hash directory
  of the path, so no block of the path exists afterwards.
\<close>

lemma invalidate_file_loop_blocks:
  "blocks_dir (invalidate_file_loop path des ctx) =
     filter (\<lambda>(k, f). \<not> (in_hash_dir path k \<and> k \<in> fst ` set des)) (blocks_dir ctx)"
proof (induction des arbitrary: ctx)
  case Nil
  show ?case by simp
next
  case (Cons d des)
  obtain p f where d: "d = (p, f)" by (cases d)
  show ?case
  proof (cases "in_hash_dir path p")
    case False
    have "filter (\<lambda>(k, f). \<not> (in_hash_dir path k \<and> k \<in> fst ` set (d # des))) (blocks_dir ctx) =
          filter (\<lambda>(k, f). \<not> (in_hash_dir path k \<and> k \<in> fst ` set des)) (blocks_dir ctx)"
      using False by (intro filter_cong) (auto simp: d)
    with False Cons.IH [of ctx] show ?thesis by (simp add: d)
  next
    case True
    show ?thesis
    proof (cases "map_of (blocks_dir ctx) p")
      case None
      then have "\<forall>b. (p, b) \<notin> set (blocks_dir ctx)"
        by (force simp: map_of_eq_None_iff)
      then have
        "filter (\<lambda>(k, f). \<not> (in_hash_dir path k \<and> k \<in> fst ` set (d # des))) (blocks_dir ctx) =
         filter (\<lambda>(k, f). \<not> (in_hash_dir path k \<and> k \<in> fst ` set des)) (blocks_dir ctx)"
        by (intro filter_cong) (auto simp: d)
      with True None Cons.IH [of ctx] show ?thesis by (simp add: d)
    next
      case (Some st)
      let ?ctx' = "ctx\<lparr>blocks_dir := AList.delete p (blocks_dir ctx),
                       current_cache_size := current_cache_size ctx - st_size_of st\<rparr>"
      have "filter (\<lambda>(k, f). \<not> (in_hash_dir path k \<and> k \<in> fst ` set des))
              (AList.delete p (blocks_dir ctx)) =
            filter (\<lambda>(k, f). \<not> (in_hash_dir path k \<and> k \<in> fst ` set (d # des))) (blocks_dir ctx)"
        using True by (auto simp: AList.delete_eq d intro!: filter_cong)
      with True Some Cons.IH [of ?ctx'] show ?thesis by (simp add: d)
    qed
  qed
qed

lemma in_hash_dir_get_block_path: "in_hash_dir path (get_block_path path i)"
  by (simp add: in_hash_dir_def get_block_path_def Let_def)

lemma cache_block_invalidate_file_no_blocks:
  "\<not> cache_block_exists (snd (cache_block_invalidate_file ctx path)) path i"
proof -
  have "get_block_path path i \<notin>
          fst ` set (filter (\<lambda>(k, f). \<not> (in_hash_dir path k \<and> k \<in> fst ` set (blocks_dir ctx)))
                      (blocks_dir ctx))"
    using in_hash_dir_get_block_path [of path i] by force
  then show ?thesis
    by (simp add: cache_block_exists_def cache_block_invalidate_file_def
        invalidate_file_loop_blocks map_of_eq_None_iff)
qed

text \<open>
  Claim C8: given the backend's stat for a path,
  \<open>cache_coherency_check_and_invalidate\<close> returns 0, and exactly when the metadata store
  holds a record of the path whose mtime or size differs from the backend's, it removes
  that record (a lookup misses afterwards) and, where there is a block cache, every
  block of the path (\<open>cache_block_exists\<close> is false for every index). Otherwise (no
  record, or mtime and size both equal) the metadata store and the block store are
  left exactly as they were.
\<close>

theorem coherency_check_invalidates_iff_stale:
  assumes "cache_coherency_check_and_invalidate meta blk path st now = (rc, meta', blk')"
  shows "rc = 0 \<and>
    (if \<exists>cached valid. cache_meta_lookup meta path now = Some (cached, valid) \<and>
          (e_mtime cached \<noteq> st_mtime st \<or> e_size cached \<noteq> st_size st)
     then cache_meta_lookup meta' path t = None \<and>
          (blk' = None \<longleftrightarrow> blk = None) \<and>
          (\<forall>b' i. blk' = Some b' \<longrightarrow> \<not> cache_block_exists b' path i)
     else meta' = meta \<and> blk' = blk)"
proof (cases "cache_meta_lookup meta path now")
  case None
  with assms show ?thesis
    by (simp add: cache_coherency_check_and_invalidate_def)
next
  case (Some cv)
  obtain cached valid where cv: "cv = (cached, valid)" by (cases cv)
  show ?thesis
  proof (cases "cache_coherency_validate_meta cached st")
    case True
    with assms Some cv show ?thesis
      by (auto simp: cache_coherency_check_and_invalidate_def cache_coherency_validate_meta_def)
  next
    case False
    with assms Some cv have rc: "rc = 0"
      and meta': "meta' = snd (cache_meta_invalidate meta path)"
      and blk': "blk' = map_option (\<lambda>b. snd (cache_block_invalidate_file b path)) blk"
      by (simp_all add: cache_coherency_check_and_invalidate_def)
    have stale: "\<exists>cached valid. cache_meta_lookup meta path now = Some (cached, valid) \<and>
          (e_mtime cached \<noteq> st_mtime st \<or> e_size cached \<noteq> st_size st)"
      using False Some cv by (auto simp: cache_coherency_validate_meta_def)
    have gone: "cache_meta_lookup meta' path t = None"
      by (simp add: meta' cache_meta_invalidate_def cache_meta_lookup_def delete_conv')
    have blocks: "\<forall>b' i. blk' = Some b' \<longrightarrow> \<not> cache_block_exists b' path i"
      using cache_block_invalidate_file_no_blocks by (auto simp: blk')
    have "blk' = None \<longleftrightarrow> blk = None"
      by (simp add: blk')
    with rc stale gone blocks show ?thesis by simp
  qed
qed

text \<open>
  Claim C8 at a concrete store. \<open>/f\<close> is cached with mtime 1000 and size 11, and the
  block store holds its blocks 0 and 1. Against a backend stat with mtime 1001 the
  check empties both stores; against the stat that was cached it changes nothing.
\<close>

theorem coherency_check_invalidates_iff_stale_witness:
  "cache_meta_lookup meta_of_f ''/f'' 2001 =
     Some (\<lparr>e_type = CACHE_ENTRY_FILE, e_size = 11, e_mtime = 1000, e_ctime = 1000,
            e_mode = 0x81A4, e_uid = 501, e_gid = 20, e_ino = 42, e_cached_at = 2000,
            e_valid_until = 2005\<rparr>, True) \<and>
   st_mtime stat_file_newer = 1001 \<and>
   cache_coherency_check_and_invalidate meta_of_f (Some two_blocks) ''/f'' stat_file_newer 2001 =
     (0, meta_empty, Some (cache_block_init [] 4 0)) \<and>
   cache_meta_lookup meta_empty ''/f'' 2002 = None \<and>
   \<not> cache_block_exists (cache_block_init [] 4 0) ''/f'' 0 \<and>
   \<not> cache_block_exists (cache_block_init [] 4 0) ''/f'' 1 \<and>
   cache_coherency_check_and_invalidate meta_of_f (Some two_blocks) ''/f'' stat_file 2001 =
     (0, meta_of_f, Some two_blocks)"
  using coherency_check_invalidates_iff_stale
          [of meta_of_f "Some two_blocks" "''/f''" stat_file_newer 2001 0 meta_empty
              "Some (cache_block_init [] 4 0)" 2002]
        coherency_check_invalidates_iff_stale
          [of meta_of_f "Some two_blocks" "''/f''" stat_file 2001 0 meta_of_f
              "Some two_blocks" 2002]
  by (simp add: meta_of_f_def meta_empty_def stat_file_def stat_file_newer_def two_blocks_def
      cache_coherency_check_and_invalidate_def cache_coherency_validate_meta_def
      cache_block_invalidate_file_def in_hash_dir_def
      meta_store_defs block_store_defs Let_def)

end
